theory Spec2Isabelle
  imports Main
begin

section \<open>Values, errors and effects\<close>

text \<open>
  The class \<open>Cache\<close> of \<open>zero/cache.py\<close> mediates between a FUSE adapter and five
  collaborators (path converter, state store, inode store, ranker, remote API) and the
  local disk. Every method is embedded as a function on an explicit \<open>world\<close>: the
  collaborators' states, the disk, and a trace that records every call the method makes
  to a collaborator or to the operating system, in the order the source makes it.
  A raised exception is the value \<open>Inl e\<close>; the world reached at the raise is kept,
  because Python does not roll back.
\<close>

datatype errno = ENOENT | EEXIST | EISDIR | ENOTDIR | EBADF | ELOOP | ENETUNREACH

datatype error =
    FuseOSError errno
  | OSError errno
  | ConnectionError
  | TypeError
  | IndexError
  | KeyError
  | JSONDecodeError

datatype tag = CleanLocal | Dirty | Remote | ToDelete

datatype kind = Regular | Directory | Symlink

record node =
  kind :: kind
  content :: string
  st_mode :: nat
  st_uid :: nat
  st_gid :: nat
  st_atime :: int
  st_mtime :: int

datatype oflag = O_RDONLY | O_WRONLY | O_RDWR | O_CREAT | O_TRUNC | O_EXCL | O_APPEND

datatype target = Linked string | Unlinked node

record handle =
  target :: target
  h_flags :: "oflag list"
  offset :: nat

text \<open>
  A value of Python that is an inode or \<open>None\<close> is a \<open>nat option\<close>; a path or
  \<open>None\<close> is a \<open>string option\<close>. The optional arguments of \<open>PathLock\<close> are
  options too: \<open>None\<close> is "not given", the default of \<open>PathLock\<close>.
\<close>

datatype event =
    Lock_acquire string "bool option" "bool option" "nat option"
  | Lock_release string
  | Registry_get_inode string
  | Registry_get_paths "nat option"
  | Registry_create_path string
  | Registry_delete_path string
  | Registry_rename_paths string string
  | Store_set_dirty "nat option"
  | Store_set_remote "nat option"
  | Store_set_downloaded "nat option"
  | Store_set_todelete "nat option"
  | Store_is_clean "nat option"
  | Store_is_remote "nat option"
  | Store_exists "nat option"
  | Ranker_access "nat option"
  | Ranker_delete "nat option"
  | Api_download "nat option"
  | Os_path_exists string
  | Os_path_islink "string option"
  | Os_open string "oflag list"
  | Os_lseek nat nat
  | Os_read nat nat
  | Os_write nat string
  | Os_rename string string
  | Os_unlink "string option"
  | Os_mkdir string
  | Os_rmdir string
  | Os_utime string int int
  | Os_stat string
  | File_read string
  | File_open_w string
  | File_write string string
  | File_truncate string nat
  | File_write_keep_times string string

record converter =
  cache_root :: string
  dummy_ending :: string

record inode_store =
  paths :: "(string \<times> nat) list"
  next_inode :: nat

record world =
  converter :: converter
  state_store :: "nat option \<Rightarrow> tag option"
  inode_store :: inode_store
  api :: "nat option \<Rightarrow> string option"
  disk :: "string \<Rightarrow> node option"
  fds :: "nat \<Rightarrow> handle option"
  next_fd :: nat
  euid :: nat
  egid :: nat
  clock :: int
  trace :: "event list"

type_synonym 'a action = "world \<Rightarrow> (error + 'a) \<times> world"

definition succeed :: "'a \<Rightarrow> 'a action" where
  "succeed x s = (Inr x, s)"

definition raise :: "error \<Rightarrow> 'a action" where
  "raise e s = (Inl e, s)"

definition andthen :: "'a action \<Rightarrow> ('a \<Rightarrow> 'b action) \<Rightarrow> 'b action" where
  "andthen m f s = (case m s of (Inl e, s') \<Rightarrow> (Inl e, s') | (Inr x, s') \<Rightarrow> f x s')"

definition try_except :: "'a action \<Rightarrow> (error \<Rightarrow> 'a action) \<Rightarrow> 'a action" where
  "try_except m h s = (case m s of (Inl e, s') \<Rightarrow> h e s' | (Inr x, s') \<Rightarrow> (Inr x, s'))"

definition log :: "event \<Rightarrow> world \<Rightarrow> world" where
  "log e s = s\<lparr>trace := trace s @ [e]\<rparr>"

text \<open>Python's truth value of an inode-or-None: \<open>None\<close> and \<open>0\<close> are false.\<close>

definition truthy :: "nat option \<Rightarrow> bool" where
  "truthy v = (case v of None \<Rightarrow> False | Some i \<Rightarrow> i \<noteq> 0)"

section \<open>The collaborators\<close>

subsection \<open>Path lock\<close>

text \<open>
  Modelled from the spec: \<open>zero/locking.py\<close> (class \<open>PathLock\<close>) is not among the
  source files. The spec (4.1): "scoped acquisition of a per-path lock with guaranteed
  release on all exit paths, including failure". One caller runs at a time in this model,
  so an acquisition never has to retry; the acquisition, with the arguments the caller
  gave, and the release are recorded in the trace around the body.
\<close>

definition PathLock ::
  "string \<Rightarrow> bool option \<Rightarrow> bool option \<Rightarrow> nat option \<Rightarrow> 'a action \<Rightarrow> 'a action" where
  "PathLock path exclusive_lock_on_leaf high_priority acquisition_max_retries body s =
     (case body (log (Lock_acquire path exclusive_lock_on_leaf high_priority
                        acquisition_max_retries) s) of
        (r, s') \<Rightarrow> (r, log (Lock_release path) s'))"

subsection \<open>Path converter\<close>

text \<open>
  Modelled from the spec: \<open>self.converter\<close> is not among the source files. The spec (3):
  the converter maps a logical path "to a cache path by concatenation with a fixed
  cache-root prefix", and "a reserved suffix (the dummy ending) appended to a cache path"
  marks a placeholder. The prefix and the suffix are the two fields of \<open>converter\<close>.
\<close>

definition to_cache_path :: "string \<Rightarrow> string action" where
  "to_cache_path fuse_path s = (Inr (cache_root (converter s) @ fuse_path), s)"

definition add_dummy_ending :: "string \<Rightarrow> string action" where
  "add_dummy_ending cache_path s = (Inr (cache_path @ dummy_ending (converter s)), s)"

definition ends_with :: "string \<Rightarrow> string \<Rightarrow> bool" where
  "ends_with e p = (length e \<le> length p \<and> drop (length p - length e) p = e)"

definition is_dummy :: "string \<Rightarrow> bool action" where
  "is_dummy cache_path s = (Inr (ends_with (dummy_ending (converter s)) cache_path), s)"

subsection \<open>Inode store\<close>

text \<open>
  Modelled from the spec: \<open>self.inode_store\<close> is not among the source files. The spec
  (3, 6): an inode is "assigned by the inode registry when a path is first created";
  \<open>get_inode(path)\<close> gives the inode or absent; \<open>get_paths(inode)\<close> gives the "ordered
  list of paths (first entry is canonical)"; \<open>delete_path\<close> and \<open>rename_paths\<close>
  remove and re-key an entry. The registry is the list of (path, inode) entries in the
  order of their creation, and a counter for the next inode.
\<close>

definition inode_of :: "inode_store \<Rightarrow> string \<Rightarrow> nat option" where
  "inode_of r path = map_of (paths r) path"

definition paths_of :: "inode_store \<Rightarrow> nat option \<Rightarrow> string list" where
  "paths_of r inode = map fst (filter (\<lambda>(p, i). Some i = inode) (paths r))"

definition get_inode :: "string \<Rightarrow> nat option action" where
  "get_inode path s = (Inr (inode_of (inode_store s) path), log (Registry_get_inode path) s)"

definition get_paths :: "nat option \<Rightarrow> string list action" where
  "get_paths inode s = (Inr (paths_of (inode_store s) inode), log (Registry_get_paths inode) s)"

definition create_path :: "string \<Rightarrow> unit action" where
  "create_path path s =
     (let r = inode_store s in
      (Inr (),
       log (Registry_create_path path)
         (if map_of (paths r) path = None
          then s\<lparr>inode_store := \<lparr>paths = paths r @ [(path, next_inode r)],
                                  next_inode = Suc (next_inode r)\<rparr>\<rparr>
          else s)))"

definition delete_path :: "string \<Rightarrow> unit action" where
  "delete_path path s =
     (let r = inode_store s in
      (Inr (),
       log (Registry_delete_path path)
         (s\<lparr>inode_store := r\<lparr>paths := filter (\<lambda>(p, i). p \<noteq> path) (paths r)\<rparr>\<rparr>)))"

definition rename_paths :: "string \<Rightarrow> string \<Rightarrow> unit action" where
  "rename_paths old_path new_path s =
     (let r = inode_store s in
      (Inr (),
       log (Registry_rename_paths old_path new_path)
         (if map_of (paths r) old_path = None then s
          else s\<lparr>inode_store := r\<lparr>paths :=
                 map (\<lambda>(p, i). if p = old_path then (new_path, i) else (p, i))
                   (filter (\<lambda>(p, i). p = old_path \<or> p \<noteq> new_path) (paths r))\<rparr>\<rparr>)))"

subsection \<open>State store\<close>

text \<open>
  Modelled from the spec: \<open>self.state_store\<close> is not among the source files. The spec
  (2, 6): a "per-inode tag in {clean-local, dirty, remote, to-delete}", with
  \<open>set_downloaded\<close> "(= mark clean-local)". The store is a dictionary from the value
  it is called with to the tag.
\<close>

definition set_tag :: "event \<Rightarrow> nat option \<Rightarrow> tag \<Rightarrow> unit action" where
  "set_tag e inode t s = (Inr (), log e (s\<lparr>state_store := (state_store s)(inode := Some t)\<rparr>))"

definition set_dirty :: "nat option \<Rightarrow> unit action" where
  "set_dirty inode = set_tag (Store_set_dirty inode) inode Dirty"

definition set_remote :: "nat option \<Rightarrow> unit action" where
  "set_remote inode = set_tag (Store_set_remote inode) inode Remote"

definition set_downloaded :: "nat option \<Rightarrow> unit action" where
  "set_downloaded inode = set_tag (Store_set_downloaded inode) inode CleanLocal"

definition set_todelete :: "nat option \<Rightarrow> unit action" where
  "set_todelete inode = set_tag (Store_set_todelete inode) inode ToDelete"

definition is_clean :: "nat option \<Rightarrow> bool action" where
  "is_clean inode s = (Inr (state_store s inode = Some CleanLocal), log (Store_is_clean inode) s)"

definition is_remote :: "nat option \<Rightarrow> bool action" where
  "is_remote inode s = (Inr (state_store s inode = Some Remote), log (Store_is_remote inode) s)"

definition exists :: "nat option \<Rightarrow> bool action" where
  "exists inode s = (Inr (state_store s inode \<noteq> None), log (Store_exists inode) s)"

subsection \<open>Ranker and remote API\<close>

text \<open>
  Modelled from the spec: \<open>self.ranker\<close> and \<open>self.api\<close> are not among the source
  files. The spec (6): the ranker's \<open>handle_inode_access\<close> and \<open>handle_inode_delete\<close>
  are "fire-and-forget"; \<open>download(inode)\<close> gives "a readable byte stream; failures
  surface as a generic connection error". The field \<open>api\<close> holds, for each inode, the
  bytes the remote returns, or \<open>None\<close> when the connection fails.
\<close>

definition handle_inode_access :: "nat option \<Rightarrow> unit action" where
  "handle_inode_access inode s = (Inr (), log (Ranker_access inode) s)"

definition handle_inode_delete :: "nat option \<Rightarrow> unit action" where
  "handle_inode_delete inode s = (Inr (), log (Ranker_delete inode) s)"

definition download :: "nat option \<Rightarrow> string action" where
  "download inode s =
     (case api s inode of
        None \<Rightarrow> (Inl ConnectionError, log (Api_download inode) s)
      | Some bytes \<Rightarrow> (Inr bytes, log (Api_download inode) s))"

section \<open>The local disk\<close>

text \<open>
  The operating system is outside the repository; this is the part of POSIX and of the
  Python library that the methods of \<open>Cache\<close> call. The disk is a flat map from the
  full on-disk path to a node. A symbolic link holds its target in \<open>content\<close>; the
  calls that follow links (\<open>os.path.exists\<close>, \<open>os.open\<close>, \<open>open\<close>, \<open>os.utime\<close>)
  do so through \<open>resolve\<close>, which gives up after 40 links as Linux does. Parent
  directories are not checked, the entries below a directory do not move with it, and
  \<open>os.rmdir\<close> does not look for entries below it. Time stamps are whole numbers; a
  call that changes a file stamps it with \<open>clock\<close>. A descriptor follows its file
  through a rename, and keeps the node of a file that has lost its name.
\<close>

fun follow :: "nat \<Rightarrow> (string \<Rightarrow> node option) \<Rightarrow> string \<Rightarrow> string option" where
  "follow 0 d p = None"
| "follow (Suc n) d p =
     (case d p of
        None \<Rightarrow> Some p
      | Some nd \<Rightarrow> if kind nd = Symlink then follow n d (content nd) else Some p)"

definition resolve :: "(string \<Rightarrow> node option) \<Rightarrow> string \<Rightarrow> string option" where
  "resolve d p = follow 40 d p"

definition path_exists :: "(string \<Rightarrow> node option) \<Rightarrow> string \<Rightarrow> bool" where
  "path_exists d p = (case resolve d p of None \<Rightarrow> False | Some q \<Rightarrow> d q \<noteq> None)"

definition os_path_exists :: "string \<Rightarrow> bool action" where
  "os_path_exists p s = (Inr (path_exists (disk s) p), log (Os_path_exists p) s)"

text \<open>
  \<open>os.path.islink(None)\<close> raises \<open>TypeError\<close>: \<open>os.lstat\<close> refuses a path that is
  not a string, and \<open>islink\<close> catches only \<open>OSError\<close>, \<open>ValueError\<close> and
  \<open>AttributeError\<close>.
\<close>

definition os_path_islink :: "string option \<Rightarrow> bool action" where
  "os_path_islink p s =
     (case p of
        None \<Rightarrow> (Inl TypeError, log (Os_path_islink p) s)
      | Some q \<Rightarrow>
          (Inr (case disk s q of None \<Rightarrow> False | Some nd \<Rightarrow> kind nd = Symlink),
           log (Os_path_islink p) s))"

definition wants_write :: "oflag list \<Rightarrow> bool" where
  "wants_write flags = (O_WRONLY \<in> set flags \<or> O_RDWR \<in> set flags)"

definition wants_read :: "oflag list \<Rightarrow> bool" where
  "wants_read flags = (O_WRONLY \<notin> set flags \<or> O_RDWR \<in> set flags)"

definition new_file :: "world \<Rightarrow> nat \<Rightarrow> node" where
  "new_file s mode =
     \<lparr>kind = Regular, content = [], st_mode = mode, st_uid = euid s, st_gid = egid s,
      st_atime = clock s, st_mtime = clock s\<rparr>"

definition alloc_fd :: "string \<Rightarrow> oflag list \<Rightarrow> nat action" where
  "alloc_fd q flags s =
     (Inr (next_fd s),
      s\<lparr>fds := (fds s)(next_fd s := Some \<lparr>target = Linked q, h_flags = flags, offset = 0\<rparr>),
        next_fd := Suc (next_fd s)\<rparr>)"

definition os_open :: "string \<Rightarrow> oflag list \<Rightarrow> nat \<Rightarrow> nat action" where
  "os_open p flags mode s0 =
     (let s = log (Os_open p flags) s0 in
      if O_CREAT \<in> set flags \<and> O_EXCL \<in> set flags \<and> disk s p \<noteq> None
      then (Inl (OSError EEXIST), s)
      else
        (case resolve (disk s) p of
           None \<Rightarrow> (Inl (OSError ELOOP), s)
         | Some q \<Rightarrow>
             (case disk s q of
                None \<Rightarrow>
                  if O_CREAT \<in> set flags
                  then alloc_fd q flags (s\<lparr>disk := (disk s)(q := Some (new_file s mode))\<rparr>)
                  else (Inl (OSError ENOENT), s)
              | Some nd \<Rightarrow>
                  if kind nd = Directory \<and> wants_write flags then (Inl (OSError EISDIR), s)
                  else if O_TRUNC \<in> set flags \<and> wants_write flags \<and> kind nd = Regular
                  then alloc_fd q flags
                         (s\<lparr>disk := (disk s)(q := Some (nd\<lparr>content := [], st_mtime := clock s\<rparr>))\<rparr>)
                  else alloc_fd q flags s)))"

definition handle_node :: "(string \<Rightarrow> node option) \<Rightarrow> handle \<Rightarrow> node option" where
  "handle_node d h = (case target h of Linked q \<Rightarrow> d q | Unlinked nd \<Rightarrow> Some nd)"

definition put_handle_node :: "nat \<Rightarrow> handle \<Rightarrow> node \<Rightarrow> world \<Rightarrow> world" where
  "put_handle_node fd h nd s =
     (case target h of
        Linked q \<Rightarrow> s\<lparr>disk := (disk s)(q := Some nd), fds := (fds s)(fd := Some h)\<rparr>
      | Unlinked _ \<Rightarrow> s\<lparr>fds := (fds s)(fd := Some (h\<lparr>target := Unlinked nd\<rparr>))\<rparr>)"

definition os_lseek :: "nat \<Rightarrow> nat \<Rightarrow> nat action" where
  "os_lseek fd pos s0 =
     (let s = log (Os_lseek fd pos) s0 in
      case fds s fd of
        None \<Rightarrow> (Inl (OSError EBADF), s)
      | Some h \<Rightarrow> (Inr pos, s\<lparr>fds := (fds s)(fd := Some (h\<lparr>offset := pos\<rparr>))\<rparr>))"

definition os_read :: "nat \<Rightarrow> nat \<Rightarrow> string action" where
  "os_read fd sz s0 =
     (let s = log (Os_read fd sz) s0 in
      case fds s fd of
        None \<Rightarrow> (Inl (OSError EBADF), s)
      | Some h \<Rightarrow>
          if \<not> wants_read (h_flags h) then (Inl (OSError EBADF), s)
          else
            (case handle_node (disk s) h of
               None \<Rightarrow> (Inl (OSError EBADF), s)
             | Some nd \<Rightarrow>
                 if kind nd = Directory then (Inl (OSError EISDIR), s)
                 else
                   (let bytes = take sz (drop (offset h) (content nd)) in
                    (Inr bytes,
                     put_handle_node fd (h\<lparr>offset := offset h + length bytes\<rparr>)
                       (nd\<lparr>st_atime := clock s\<rparr>) s))))"

definition write_at :: "nat \<Rightarrow> string \<Rightarrow> string \<Rightarrow> string" where
  "write_at pos bytes old =
     take pos (old @ replicate (pos - length old) (CHR 0x00)) @ bytes
       @ drop (pos + length bytes) old"

definition os_write :: "nat \<Rightarrow> string \<Rightarrow> nat action" where
  "os_write fd bytes s0 =
     (let s = log (Os_write fd bytes) s0 in
      case fds s fd of
        None \<Rightarrow> (Inl (OSError EBADF), s)
      | Some h \<Rightarrow>
          if \<not> wants_write (h_flags h) then (Inl (OSError EBADF), s)
          else
            (case handle_node (disk s) h of
               None \<Rightarrow> (Inl (OSError EBADF), s)
             | Some nd \<Rightarrow>
                 if bytes = [] then (Inr 0, s)
                 else
                   (let pos = (if O_APPEND \<in> set (h_flags h) then length (content nd)
                               else offset h) in
                    (Inr (length bytes),
                     put_handle_node fd (h\<lparr>offset := pos + length bytes\<rparr>)
                       (nd\<lparr>content := write_at pos bytes (content nd), st_mtime := clock s\<rparr>)
                       s))))"

definition retarget :: "string \<Rightarrow> target \<Rightarrow> (nat \<Rightarrow> handle option) \<Rightarrow> nat \<Rightarrow> handle option" where
  "retarget p t f fd =
     (case f fd of
        None \<Rightarrow> None
      | Some h \<Rightarrow> if target h = Linked p then Some (h\<lparr>target := t\<rparr>) else Some h)"

definition move_node :: "string \<Rightarrow> string \<Rightarrow> node \<Rightarrow> world \<Rightarrow> world" where
  "move_node a b nd s =
     s\<lparr>disk := (disk s)(a := None, b := Some nd),
       fds := retarget a (Linked b)
                (case disk s b of None \<Rightarrow> fds s | Some old \<Rightarrow> retarget b (Unlinked old) (fds s))\<rparr>"

definition os_rename :: "string \<Rightarrow> string \<Rightarrow> unit action" where
  "os_rename a b s0 =
     (let s = log (Os_rename a b) s0 in
      case disk s a of
        None \<Rightarrow> (Inl (OSError ENOENT), s)
      | Some nd \<Rightarrow>
          if a = b then (Inr (), s)
          else
            (case disk s b of
               None \<Rightarrow> (Inr (), move_node a b nd s)
             | Some old \<Rightarrow>
                 if kind old = Directory \<and> kind nd \<noteq> Directory then (Inl (OSError EISDIR), s)
                 else if kind nd = Directory \<and> kind old \<noteq> Directory
                 then (Inl (OSError ENOTDIR), s)
                 else (Inr (), move_node a b nd s)))"

definition os_unlink :: "string option \<Rightarrow> unit action" where
  "os_unlink p s0 =
     (let s = log (Os_unlink p) s0 in
      case p of
        None \<Rightarrow> (Inl TypeError, s)
      | Some q \<Rightarrow>
          (case disk s q of
             None \<Rightarrow> (Inl (OSError ENOENT), s)
           | Some nd \<Rightarrow>
               if kind nd = Directory then (Inl (OSError EISDIR), s)
               else (Inr (), s\<lparr>disk := (disk s)(q := None),
                               fds := retarget q (Unlinked nd) (fds s)\<rparr>)))"

definition os_mkdir :: "string \<Rightarrow> nat \<Rightarrow> unit action" where
  "os_mkdir p mode s0 =
     (let s = log (Os_mkdir p) s0 in
      case disk s p of
        Some nd \<Rightarrow> (Inl (OSError EEXIST), s)
      | None \<Rightarrow>
          (Inr (), s\<lparr>disk := (disk s)(p := Some ((new_file s mode)\<lparr>kind := Directory\<rparr>))\<rparr>))"

definition os_rmdir :: "string \<Rightarrow> unit action" where
  "os_rmdir p s0 =
     (let s = log (Os_rmdir p) s0 in
      case disk s p of
        None \<Rightarrow> (Inl (OSError ENOENT), s)
      | Some nd \<Rightarrow>
          if kind nd \<noteq> Directory then (Inl (OSError ENOTDIR), s)
          else (Inr (), s\<lparr>disk := (disk s)(p := None)\<rparr>))"

text \<open>The node a call that follows links works on, or the error it raises.\<close>

definition existing :: "(string \<Rightarrow> node option) \<Rightarrow> string \<Rightarrow> error + (string \<times> node)" where
  "existing d p =
     (case resolve d p of
        None \<Rightarrow> Inl (OSError ELOOP)
      | Some q \<Rightarrow> (case d q of None \<Rightarrow> Inl (OSError ENOENT) | Some nd \<Rightarrow> Inr (q, nd)))"

definition os_utime :: "string \<Rightarrow> int \<Rightarrow> int \<Rightarrow> unit action" where
  "os_utime p atime mtime s0 =
     (let s = log (Os_utime p atime mtime) s0 in
      case existing (disk s) p of
        Inl e \<Rightarrow> (Inl e, s)
      | Inr (q, nd) \<Rightarrow>
          (Inr (), s\<lparr>disk := (disk s)(q := Some (nd\<lparr>st_atime := atime, st_mtime := mtime\<rparr>))\<rparr>))"

text \<open>\<open>with open(p, "r") as f\<close> and reading \<open>f\<close> to its end.\<close>

definition file_read :: "string \<Rightarrow> string action" where
  "file_read p s0 =
     (let s = log (File_read p) s0 in
      case existing (disk s) p of
        Inl e \<Rightarrow> (Inl e, s)
      | Inr (q, nd) \<Rightarrow>
          if kind nd = Directory then (Inl (OSError EISDIR), s)
          else (Inr (content nd), s\<lparr>disk := (disk s)(q := Some (nd\<lparr>st_atime := clock s\<rparr>))\<rparr>))"

text \<open>
  \<open>open(p, "w+b")\<close>: the file is created when it is missing (mode 0o666, which is
  438) and emptied when it is there. The result is the path of the file that was opened, which \<open>file_write\<close>
  then writes from position 0.
\<close>

definition file_open_w :: "string \<Rightarrow> string action" where
  "file_open_w p s0 =
     (let s = log (File_open_w p) s0 in
      case resolve (disk s) p of
        None \<Rightarrow> (Inl (OSError ELOOP), s)
      | Some q \<Rightarrow>
          (case disk s q of
             None \<Rightarrow> (Inr q, s\<lparr>disk := (disk s)(q := Some (new_file s 438))\<rparr>)
           | Some nd \<Rightarrow>
               if kind nd = Directory then (Inl (OSError EISDIR), s)
               else (Inr q, s\<lparr>disk := (disk s)(q := Some (nd\<lparr>content := [],
                                                                  st_mtime := clock s\<rparr>))\<rparr>)))"

definition file_write :: "string \<Rightarrow> string \<Rightarrow> unit action" where
  "file_write q bytes s0 =
     (let s = log (File_write q bytes) s0 in
      case disk s q of
        None \<Rightarrow> (Inr (), s)
      | Some nd \<Rightarrow>
          (Inr (), s\<lparr>disk := (disk s)(q := Some (nd\<lparr>content := write_at 0 bytes (content nd),
                                                      st_mtime := clock s\<rparr>))\<rparr>))"

text \<open>\<open>with open(p, "r+") as f: return f.truncate(length)\<close>.\<close>

definition file_truncate :: "string \<Rightarrow> nat \<Rightarrow> nat action" where
  "file_truncate p len s0 =
     (let s = log (File_truncate p len) s0 in
      case existing (disk s) p of
        Inl e \<Rightarrow> (Inl e, s)
      | Inr (q, nd) \<Rightarrow>
          if kind nd = Directory then (Inl (OSError EISDIR), s)
          else
            (Inr len,
             s\<lparr>disk := (disk s)(q := Some (nd\<lparr>content :=
                  take len (content nd @ replicate (len - length (content nd)) (CHR 0x00)),
                  st_mtime := clock s\<rparr>))\<rparr>))"

section \<open>Serialized stat dictionaries\<close>

text \<open>
  \<open>json.dump\<close> and \<open>json.load\<close> belong to the Python library, not to the
  repository. A stat dictionary is a list of (key, whole number) entries in insertion
  order. \<open>json_dumps\<close> writes it as Python does, \<open>{"k": v, "k2": v2}\<close>;
  \<open>json_loads\<close> reads such texts (white space between tokens allowed, no escapes in
  keys, no leading zeros) in one pass over the characters, and anything else is
  undecodable. A key that occurs twice counts with its last value, as in Python.
\<close>

definition digit_char :: "nat \<Rightarrow> char" where
  "digit_char n = ''0123456789'' ! n"

definition is_digit :: "char \<Rightarrow> bool" where
  "is_digit c = (48 \<le> (of_char c :: nat) \<and> (of_char c :: nat) \<le> 57)"

definition digit_val :: "char \<Rightarrow> nat" where
  "digit_val c = of_char c - 48"

fun show_nat :: "nat \<Rightarrow> string" where
  "show_nat n = (if n < 10 then [digit_char n] else show_nat (n div 10) @ [digit_char (n mod 10)])"

definition show_int :: "int \<Rightarrow> string" where
  "show_int i = (if i < 0 then CHR ''-'' # show_nat (nat (- i)) else show_nat (nat i))"

definition dec :: "string \<Rightarrow> nat" where
  "dec ds = foldl (\<lambda>a c. 10 * a + digit_val c) 0 ds"

definition is_space :: "char \<Rightarrow> bool" where
  "is_space c = (c = CHR '' '' \<or> c = CHR 0x0A \<or> c = CHR 0x0D \<or> c = CHR 0x09)"

datatype jstate =
    J_start
  | J_open "(string \<times> int) list"
  | J_in_key "(string \<times> int) list" string
  | J_colon "(string \<times> int) list" string
  | J_value "(string \<times> int) list" string
  | J_minus "(string \<times> int) list" string
  | J_number "(string \<times> int) list" string bool string
  | J_after_value "(string \<times> int) list"
  | J_comma "(string \<times> int) list"
  | J_done "(string \<times> int) list"
  | J_fail

definition number_value :: "bool \<Rightarrow> string \<Rightarrow> int" where
  "number_value neg ds = (if neg then - int (dec ds) else int (dec ds))"

fun jstep :: "jstate \<Rightarrow> char \<Rightarrow> jstate" where
  "jstep J_start c = (if is_space c then J_start else if c = CHR ''{'' then J_open [] else J_fail)"
| "jstep (J_open es) c =
     (if is_space c then J_open es else if c = CHR 0x22 then J_in_key es []
      else if c = CHR ''}'' then J_done es else J_fail)"
| "jstep (J_in_key es k) c =
     (if c = CHR 0x22 then J_colon es k else if c = CHR 0x5C then J_fail else J_in_key es (k @ [c]))"
| "jstep (J_colon es k) c =
     (if is_space c then J_colon es k else if c = CHR '':'' then J_value es k else J_fail)"
| "jstep (J_value es k) c =
     (if is_space c then J_value es k else if c = CHR ''-'' then J_minus es k
      else if is_digit c then J_number es k False [c] else J_fail)"
| "jstep (J_minus es k) c = (if is_digit c then J_number es k True [c] else J_fail)"
| "jstep (J_number es k neg ds) c =
     (if is_digit c then (if ds = ''0'' then J_fail else J_number es k neg (ds @ [c]))
      else if is_space c then J_after_value (es @ [(k, number_value neg ds)])
      else if c = CHR '','' then J_comma (es @ [(k, number_value neg ds)])
      else if c = CHR ''}'' then J_done (es @ [(k, number_value neg ds)])
      else J_fail)"
| "jstep (J_after_value es) c =
     (if is_space c then J_after_value es else if c = CHR '','' then J_comma es
      else if c = CHR ''}'' then J_done es else J_fail)"
| "jstep (J_comma es) c =
     (if is_space c then J_comma es else if c = CHR 0x22 then J_in_key es [] else J_fail)"
| "jstep (J_done es) c = (if is_space c then J_done es else J_fail)"
| "jstep J_fail c = J_fail"

definition json_loads :: "string \<Rightarrow> (string \<times> int) list option" where
  "json_loads text = (case foldl jstep J_start text of J_done es \<Rightarrow> Some es | _ \<Rightarrow> None)"

definition json_member :: "string \<times> int \<Rightarrow> string" where
  "json_member e = [CHR 0x22] @ fst e @ [CHR 0x22] @ '': '' @ show_int (snd e)"

fun json_members :: "(string \<times> int) list \<Rightarrow> string" where
  "json_members [] = []"
| "json_members [e] = json_member e"
| "json_members (e # es) = json_member e @ '', '' @ json_members es"

definition json_dumps :: "(string \<times> int) list \<Rightarrow> string" where
  "json_dumps d = ''{'' @ json_members d @ ''}''"

definition dict_get :: "(string \<times> int) list \<Rightarrow> string \<Rightarrow> int option" where
  "dict_get d k = map_of (rev d) k"

definition key_ok :: "string \<Rightarrow> bool" where
  "key_ok k = (CHR 0x22 \<notin> set k \<and> CHR 0x5C \<notin> set k)"

definition json_load :: "string \<Rightarrow> (string \<times> int) list action" where
  "json_load text = (case json_loads text of None \<Rightarrow> raise JSONDecodeError | Some d \<Rightarrow> succeed d)"

text \<open>\<open>d[k]\<close> and \<open>xs[0]\<close> of Python.\<close>

definition dict_item :: "(string \<times> int) list \<Rightarrow> string \<Rightarrow> int action" where
  "dict_item d k = (case dict_get d k of None \<Rightarrow> raise KeyError | Some v \<Rightarrow> succeed v)"

definition first_item :: "'a list \<Rightarrow> 'a action" where
  "first_item xs = (case xs of [] \<Rightarrow> raise IndexError | x # _ \<Rightarrow> succeed x)"

subsection \<open>File utilities\<close>

text \<open>
  Modelled from the spec: \<open>zero/file_utils.py\<close> (\<open>get_stat_dictionary\<close>,
  \<open>open_without_changing_times\<close>) is not among the source files. The spec (4.3):
  dehydration will "capture the current on-disk stat dictionary" and "open the
  placeholder with a writer that does not update access or modification times"; the
  dictionary has "at least the keys st_atime, st_mtime (and any other POSIX stat
  fields the adapter needs)". \<open>get_stat_dictionary\<close> reads the entry itself, without
  following a link. \<open>open_without_changing_times p text\<close> is the whole statement
  \<open>with open_without_changing_times(p, "w") as f: json.dump(d, f)\<close>, where
  \<open>text\<close> is what \<open>json.dump\<close> writes: the contents are replaced and the two time
  stamps stay as they were.
\<close>

definition stat_dictionary :: "node \<Rightarrow> (string \<times> int) list" where
  "stat_dictionary nd =
     [(''st_atime'', st_atime nd), (''st_gid'', int (st_gid nd)), (''st_mode'', int (st_mode nd)),
      (''st_mtime'', st_mtime nd), (''st_size'', int (length (content nd))),
      (''st_uid'', int (st_uid nd))]"

definition get_stat_dictionary :: "string \<Rightarrow> (string \<times> int) list action" where
  "get_stat_dictionary p s0 =
     (let s = log (Os_stat p) s0 in
      case disk s p of
        None \<Rightarrow> (Inl (OSError ENOENT), s)
      | Some nd \<Rightarrow> (Inr (stat_dictionary nd), s))"

definition open_without_changing_times :: "string \<Rightarrow> string \<Rightarrow> unit action" where
  "open_without_changing_times p text s0 =
     (let s = log (File_write_keep_times p text) s0 in
      case existing (disk s) p of
        Inl e \<Rightarrow> (Inl e, s)
      | Inr (q, nd) \<Rightarrow>
          if kind nd = Directory then (Inl (OSError EISDIR), s)
          else (Inr (), s\<lparr>disk := (disk s)(q := Some (nd\<lparr>content := text\<rparr>))\<rparr>))"

section \<open>The class Cache\<close>

text \<open>
  The methods of \<open>zero/cache.py\<close>, statement by statement. \<open>print\<close> has no effect on
  the world and is left out. \<open>_get_path_or_dummy\<close>, \<open>_get_path\<close> and
  \<open>_delete_file\<close> lose their underscore; \<open>_replace_dummy\<close> is
  \<open>replace_dummy_inner\<close>, beside the public \<open>replace_dummy\<close>; \<open>open\<close> and
  \<open>write\<close>, which Isabelle reserves, are \<open>open_file\<close> and \<open>write_data\<close>. The
  default mode of \<open>os.open\<close> is 0o777, which is 511. A \<open>with PathLock(...)\<close> block is
  \<open>PathLock\<close> applied to its body; a \<open>with open(...)\<close> block is one call of the
  disk (\<open>file_read\<close>, \<open>file_truncate\<close>), except in \<open>_replace_dummy\<close>, where
  the download can fail between the opening, which empties the file, and the write.
  \<open>list\<close>, \<open>_list_nodes_and_dummies\<close> and the three decorators at the end of the
  file are not embedded: they touch neither tags nor files, and nothing below is about them.
\<close>

definition get_path_or_dummy :: "string \<Rightarrow> string option action" where
  "get_path_or_dummy fuse_path =
     andthen (to_cache_path fuse_path) (\<lambda>cache_path.
     andthen (add_dummy_ending cache_path) (\<lambda>dummy_cache_path.
     andthen (os_path_exists cache_path) (\<lambda>cache_exists.
       if cache_exists then succeed (Some cache_path)
       else andthen (os_path_exists dummy_cache_path) (\<lambda>dummy_exists.
         if dummy_exists then succeed (Some dummy_cache_path)
         else succeed None))))"

definition replace_dummy_inner :: "nat option \<Rightarrow> unit action" where
  "replace_dummy_inner inode =
     andthen (is_remote inode) (\<lambda>remote.
     andthen (get_paths inode) (\<lambda>ps.
     andthen (first_item ps) (\<lambda>path.
     andthen (to_cache_path path) (\<lambda>cache_path.
     andthen (add_dummy_ending cache_path) (\<lambda>dummy_path.
     andthen (file_read dummy_path) (\<lambda>text.
     andthen (json_load text) (\<lambda>stat_dict.
     andthen (os_rename dummy_path cache_path) (\<lambda>_.
     andthen (file_open_w cache_path) (\<lambda>file.
     andthen (try_except
                (andthen (download inode) (\<lambda>bytes. file_write file bytes))
                (\<lambda>e. if e = ConnectionError then raise (FuseOSError ENETUNREACH)
                     else raise e)) (\<lambda>_.
     andthen (dict_item stat_dict ''st_atime'') (\<lambda>atime.
     andthen (dict_item stat_dict ''st_mtime'') (\<lambda>mtime.
     andthen (os_utime cache_path atime mtime) (\<lambda>_.
     set_downloaded inode)))))))))))))"

definition get_path :: "string \<Rightarrow> string action" where
  "get_path fuse_path =
     andthen (to_cache_path fuse_path) (\<lambda>cache_path.
     andthen (add_dummy_ending cache_path) (\<lambda>dummy_path.
     andthen (os_path_exists dummy_path) (\<lambda>dummy_exists.
     andthen (if dummy_exists
              then andthen (get_inode fuse_path) replace_dummy_inner
              else succeed ()) (\<lambda>_.
     succeed cache_path))))"

definition open_file :: "string \<Rightarrow> oflag list \<Rightarrow> nat action" where
  "open_file path flags =
     PathLock path None (Some True) (Some 100)
       (andthen (get_path path) (\<lambda>cache_path.
        os_open cache_path flags 511))"

definition read :: "string \<Rightarrow> nat \<Rightarrow> nat \<Rightarrow> nat \<Rightarrow> string action" where
  "read path sz pos fh =
     PathLock path (Some False) (Some True) (Some 100)
       (andthen (get_inode path) (\<lambda>inode.
        andthen (handle_inode_access inode) (\<lambda>_.
        andthen (os_lseek fh pos) (\<lambda>_.
        os_read fh sz))))"

definition truncate :: "string \<Rightarrow> nat \<Rightarrow> nat action" where
  "truncate path len =
     PathLock path None (Some True) (Some 100)
       (andthen (get_inode path) (\<lambda>inode.
        andthen (get_path path) (\<lambda>cache_path.
        andthen (set_dirty inode) (\<lambda>_.
        andthen (handle_inode_access inode) (\<lambda>_.
        file_truncate cache_path len)))))"

definition write_data :: "string \<Rightarrow> string \<Rightarrow> nat \<Rightarrow> nat \<Rightarrow> nat action" where
  "write_data path bytes pos fh =
     PathLock path None (Some True) (Some 100)
       (andthen (get_inode path) (\<lambda>inode.
        andthen (handle_inode_access inode) (\<lambda>_.
        andthen (os_lseek fh pos) (\<lambda>_.
        andthen (os_write fh bytes) (\<lambda>result.
        andthen (set_dirty inode) (\<lambda>_.
        succeed result))))))"

definition create :: "string \<Rightarrow> nat \<Rightarrow> nat action" where
  "create path mode =
     andthen (to_cache_path path) (\<lambda>cache_path.
     andthen (os_open cache_path [O_WRONLY, O_CREAT, O_TRUNC] mode) (\<lambda>result.
     andthen (create_path path) (\<lambda>_.
     andthen (get_inode path) (\<lambda>leaf_inode.
     andthen (set_dirty leaf_inode) (\<lambda>_.
     andthen (handle_inode_access leaf_inode) (\<lambda>_.
     succeed result))))))"

definition delete_file :: "string \<Rightarrow> unit action" where
  "delete_file fuse_path =
     andthen (get_inode fuse_path) (\<lambda>inode.
     andthen (get_path_or_dummy fuse_path) (\<lambda>cache_path.
     andthen (delete_path fuse_path) (\<lambda>_.
     andthen (os_unlink cache_path) (\<lambda>_.
     andthen (handle_inode_delete inode) (\<lambda>_.
     set_todelete inode)))))"

definition rmdir :: "string \<Rightarrow> unit action" where
  "rmdir fuse_path =
     andthen (to_cache_path fuse_path) (\<lambda>cache_path.
     PathLock fuse_path None (Some True) (Some 100)
       (andthen (delete_path fuse_path) (\<lambda>_.
        os_rmdir cache_path)))"

definition rename :: "string \<Rightarrow> string \<Rightarrow> unit action" where
  "rename old_path new_path =
     PathLock old_path None (Some True) (Some 100)
       (andthen (get_inode new_path) (\<lambda>existing_inode_at_new_path.
        andthen (if truthy existing_inode_at_new_path
                 then andthen (exists existing_inode_at_new_path) (\<lambda>is_file.
                        if is_file
                        then PathLock new_path None (Some True) (Some 100)
                               (delete_file new_path)
                        else rmdir new_path)
                 else succeed ()) (\<lambda>_.
        andthen (to_cache_path old_path) (\<lambda>old_cache_path.
        andthen (to_cache_path new_path) (\<lambda>new_cache_path.
        andthen (os_rename old_cache_path new_cache_path) (\<lambda>_.
        rename_paths old_path new_path))))))"

definition mkdir :: "string \<Rightarrow> nat \<Rightarrow> unit action" where
  "mkdir path mode =
     andthen (create_path path) (\<lambda>_.
     andthen (to_cache_path path) (\<lambda>cache_path.
     os_mkdir cache_path mode))"

definition is_link :: "string option \<Rightarrow> bool action" where
  "is_link cache_path = os_path_islink cache_path"

definition unlink :: "string \<Rightarrow> unit action" where
  "unlink fuse_path =
     andthen (get_path_or_dummy fuse_path) (\<lambda>cache_path.
     andthen (is_link cache_path) (\<lambda>link.
       if link then os_unlink cache_path
       else PathLock fuse_path None (Some True) (Some 10)
              (delete_file fuse_path)))"

definition getattributes :: "string \<Rightarrow> (string \<times> int) list action" where
  "getattributes fuse_path =
     andthen (get_path_or_dummy fuse_path) (\<lambda>cache_path.
       case cache_path of
         None \<Rightarrow> raise (FuseOSError ENOENT)
       | Some p \<Rightarrow>
           andthen (is_dummy p) (\<lambda>dummy.
             if dummy then andthen (file_read p) json_load
             else get_stat_dictionary p))"

definition replace_dummy :: "nat option \<Rightarrow> unit action" where
  "replace_dummy inode =
     andthen (get_paths inode) (\<lambda>ps.
     andthen (first_item ps) (\<lambda>path.
     PathLock path None None None (replace_dummy_inner inode)))"

definition create_dummy :: "nat option \<Rightarrow> unit action" where
  "create_dummy inode =
     andthen (get_paths inode) (\<lambda>ps.
     andthen (first_item ps) (\<lambda>path.
     PathLock path None None None
       (andthen (is_clean inode) (\<lambda>clean.
          if \<not> clean then succeed ()
          else
            andthen (to_cache_path path) (\<lambda>cache_path.
            andthen (get_stat_dictionary cache_path) (\<lambda>stat_dict.
            andthen (add_dummy_ending cache_path) (\<lambda>dummy_path.
            andthen (os_rename cache_path dummy_path) (\<lambda>_.
            andthen (add_dummy_ending cache_path) (\<lambda>dummy_path'.
            andthen (open_without_changing_times dummy_path' (json_dumps stat_dict)) (\<lambda>_.
            set_remote inode))))))))))"

section \<open>What the claims speak of\<close>

text \<open>The two on-disk forms of a logical path: the bare cache path and the placeholder.\<close>

definition bare :: "world \<Rightarrow> string \<Rightarrow> string" where
  "bare s path = cache_root (converter s) @ path"

definition placeholder :: "world \<Rightarrow> string \<Rightarrow> string" where
  "placeholder s path = cache_root (converter s) @ path @ dummy_ending (converter s)"

text \<open>The events an action adds to the trace when it runs from \<open>s\<close>.\<close>

definition new_events :: "world \<Rightarrow> world \<Rightarrow> event list" where
  "new_events s s' = drop (length (trace s)) (trace s')"

text \<open>
  The on-disk form \<open>_get_path_or_dummy\<close> finds for a logical path: the bare cache path
  when \<open>os.path.exists\<close> holds of it, else the placeholder when it exists, else none.
\<close>

definition form_of :: "world \<Rightarrow> string \<Rightarrow> string option" where
  "form_of s path =
     (if path_exists (disk s) (bare s path) then Some (bare s path)
      else if path_exists (disk s) (placeholder s path) then Some (placeholder s path)
      else None)"

subsection \<open>Classes of events\<close>

definition is_os_rename :: "event \<Rightarrow> bool" where
  "is_os_rename e = (case e of Os_rename a b \<Rightarrow> True | _ \<Rightarrow> False)"

definition is_lock :: "event \<Rightarrow> bool" where
  "is_lock e = (case e of Lock_acquire p a b c \<Rightarrow> True | Lock_release p \<Rightarrow> True | _ \<Rightarrow> False)"

definition is_ranker :: "event \<Rightarrow> bool" where
  "is_ranker e = (case e of Ranker_access i \<Rightarrow> True | Ranker_delete i \<Rightarrow> True | _ \<Rightarrow> False)"

definition is_disk_effect :: "event \<Rightarrow> bool" where
  "is_disk_effect e =
     (case e of
        Os_open p f \<Rightarrow> True | Os_read fd n \<Rightarrow> True | Os_write fd b \<Rightarrow> True
      | Os_rename a b \<Rightarrow> True | Os_unlink p \<Rightarrow> True | Os_mkdir p \<Rightarrow> True | Os_rmdir p \<Rightarrow> True
      | Os_utime p a m \<Rightarrow> True | File_read p \<Rightarrow> True | File_open_w p \<Rightarrow> True
      | File_write p b \<Rightarrow> True | File_truncate p n \<Rightarrow> True
      | File_write_keep_times p b \<Rightarrow> True | _ \<Rightarrow> False)"

definition observable :: "event list \<Rightarrow> event list" where
  "observable evs = filter (\<lambda>e. is_ranker e \<or> is_disk_effect e) evs"

definition notified_once_after :: "event list \<Rightarrow> bool" where
  "notified_once_after evs =
     (length (filter is_ranker evs) = 1 \<and>
      list_all (\<lambda>e. \<not> is_disk_effect e) (dropWhile (\<lambda>e. \<not> is_ranker e) evs))"

text \<open>
  \<open>emits P m\<close>: whatever the world, running \<open>m\<close> only adds events to the trace, and
  every event it adds satisfies \<open>P\<close>.
\<close>

definition emits :: "(event \<Rightarrow> bool) \<Rightarrow> 'a action \<Rightarrow> bool" where
  "emits P m = (\<forall>s. \<exists>evs. trace (snd (m s)) = trace s @ evs \<and> list_all P evs)"

text \<open>
  \<open>under_lock path leaf retries evs\<close>: the events start with the acquisition of the
  lock on \<open>path\<close> with \<open>high_priority=True\<close>, the given \<open>exclusive_lock_on_leaf\<close>
  and the given retry bound, and end with its release. \<open>probes s path\<close> are the
  existence tests \<open>_get_path_or_dummy\<close> makes for \<open>path\<close> in the world \<open>s\<close>: of the
  bare cache path, and of the placeholder when the bare cache path does not exist.
\<close>

definition under_lock :: "string \<Rightarrow> bool option \<Rightarrow> nat \<Rightarrow> event list \<Rightarrow> bool" where
  "under_lock path leaf retries evs =
     (2 \<le> length evs \<and> hd evs = Lock_acquire path leaf (Some True) (Some retries) \<and>
      last evs = Lock_release path)"

definition probes :: "world \<Rightarrow> string \<Rightarrow> event list" where
  "probes s path =
     (if path_exists (disk s) (bare s path) then [Os_path_exists (bare s path)]
      else [Os_path_exists (bare s path), Os_path_exists (placeholder s path)])"

subsection \<open>Tags and on-disk forms\<close>

text \<open>
  \<open>tag_matches\<close> is the correspondence of claim C1 for one path, with the existence
  test the code uses (\<open>os.path.exists\<close>). \<open>tags_match_disk\<close> asks it of every
  logical file known to the inode registry: every registered path whose inode has a tag
  (a directory has none). \<open>well_formed\<close> is what the registry and the disk keep besides:
  the dummy ending is not empty and ends no registered path, a path has one inode and an
  inode one path, inodes are positive and below the registry's counter, and the on-disk
  forms of a file, where they are present, are regular files.
\<close>

definition regular_or_absent :: "node option \<Rightarrow> bool" where
  "regular_or_absent x = (case x of None \<Rightarrow> True | Some nd \<Rightarrow> kind nd = Regular)"

definition tag_matches :: "world \<Rightarrow> string \<Rightarrow> tag \<Rightarrow> bool" where
  "tag_matches s path t =
     (let b = path_exists (disk s) (bare s path);
          d = path_exists (disk s) (placeholder s path)
      in ((t = Remote) = (d \<and> \<not> b)) \<and>
         ((t = Dirty \<or> t = CleanLocal) = (b \<and> \<not> d)) \<and>
         ((t = ToDelete) = (\<not> b \<and> \<not> d)))"

definition tags_match_disk :: "world \<Rightarrow> bool" where
  "tags_match_disk s =
     list_all (\<lambda>(path, i). case state_store s (Some i) of
                              None \<Rightarrow> True
                            | Some t \<Rightarrow> tag_matches s path t)
       (paths (inode_store s))"

definition well_formed :: "world \<Rightarrow> bool" where
  "well_formed s =
     (dummy_ending (converter s) \<noteq> [] \<and> 0 < next_inode (inode_store s) \<and>
      distinct (map fst (paths (inode_store s))) \<and>
      distinct (map snd (paths (inode_store s))) \<and>
      list_all (\<lambda>(path, i).
          \<not> ends_with (dummy_ending (converter s)) path \<and> 0 < i \<and>
          i < next_inode (inode_store s) \<and>
          (case state_store s (Some i) of
             None \<Rightarrow> True
           | Some t \<Rightarrow> regular_or_absent (disk s (bare s path)) \<and>
                       regular_or_absent (disk s (placeholder s path))))
        (paths (inode_store s)))"

text \<open>
  The operations of the class as values, the result of performing one (\<open>None\<close>: it
  completed), and the use of each that the adapter and the worker are expected to make:
  \<open>open\<close> and \<open>truncate\<close> on a registered file that is not to-delete, \<open>write\<close>
  on a file that is resident (or unregistered), \<open>create\<close> on a path that is neither
  registered nor on disk, \<open>mkdir\<close> on an unregistered path, \<open>rename\<close> from a
  resident file to a path that is unregistered and has no placeholder or that is a
  registered file, \<open>replace_dummy\<close> on an inode with a tag; and no path that a file
  is created at, moved to or unlinked from ends in the dummy ending.
\<close>

datatype call =
    Open string "oflag list"
  | Read string nat nat nat
  | Write string string nat nat
  | Truncate string nat
  | Create string nat
  | Rename string string
  | Mkdir string nat
  | Rmdir string
  | Unlink string
  | Getattributes string
  | Replace_dummy "nat option"
  | Create_dummy "nat option"

definition status :: "(error + 'a) \<times> world \<Rightarrow> error option \<times> world" where
  "status x = (case x of (Inl e, s) \<Rightarrow> (Some e, s) | (Inr v, s) \<Rightarrow> (None, s))"

fun perform :: "call \<Rightarrow> world \<Rightarrow> error option \<times> world" where
  "perform (Open path flags) s = status (open_file path flags s)"
| "perform (Read path sz pos fh) s = status (read path sz pos fh s)"
| "perform (Write path bytes pos fh) s = status (write_data path bytes pos fh s)"
| "perform (Truncate path len) s = status (truncate path len s)"
| "perform (Create path mode) s = status (create path mode s)"
| "perform (Rename old_path new_path) s = status (rename old_path new_path s)"
| "perform (Mkdir path mode) s = status (mkdir path mode s)"
| "perform (Rmdir path) s = status (rmdir path s)"
| "perform (Unlink path) s = status (unlink path s)"
| "perform (Getattributes path) s = status (getattributes path s)"
| "perform (Replace_dummy inode) s = status (replace_dummy inode s)"
| "perform (Create_dummy inode) s = status (create_dummy inode s)"

definition tag_of :: "world \<Rightarrow> string \<Rightarrow> tag option" where
  "tag_of s path =
     (case inode_of (inode_store s) path of None \<Rightarrow> None | Some i \<Rightarrow> state_store s (Some i))"

definition plain :: "world \<Rightarrow> string \<Rightarrow> bool" where
  "plain s path = (\<not> ends_with (dummy_ending (converter s)) path)"

fun expected :: "world \<Rightarrow> call \<Rightarrow> bool" where
  "expected s (Open path flags) = (tag_of s path \<in> {Some CleanLocal, Some Dirty, Some Remote})"
| "expected s (Truncate path len) = (tag_of s path \<in> {Some CleanLocal, Some Dirty, Some Remote})"
| "expected s (Write path bytes pos fh) =
     (inode_of (inode_store s) path = None \<or> tag_of s path \<in> {Some CleanLocal, Some Dirty})"
| "expected s (Create path mode) =
     (plain s path \<and> inode_of (inode_store s) path = None \<and>
      disk s (bare s path) = None \<and> disk s (placeholder s path) = None)"
| "expected s (Mkdir path mode) =
     (plain s path \<and> inode_of (inode_store s) path = None \<and>
      state_store s (Some (next_inode (inode_store s))) = None)"
| "expected s (Rename old_path new_path) =
     (tag_of s old_path \<in> {Some CleanLocal, Some Dirty} \<and> plain s new_path \<and>
      (if inode_of (inode_store s) new_path = None
       then disk s (placeholder s new_path) = None
       else tag_of s new_path \<noteq> None))"
| "expected s (Unlink path) = plain s path"
| "expected s (Replace_dummy inode) = (state_store s inode \<noteq> None)"
| "expected s (Read path sz pos fh) = True"
| "expected s (Rmdir path) = True"
| "expected s (Getattributes path) = True"
| "expected s (Create_dummy inode) = True"

text \<open>The two predicates together, entry by entry, as the proofs use them.\<close>

definition entry_ok :: "world \<Rightarrow> string \<Rightarrow> nat \<Rightarrow> bool" where
  "entry_ok s path i =
     (\<not> ends_with (dummy_ending (converter s)) path \<and> 0 < i \<and>
      i < next_inode (inode_store s) \<and>
      (case state_store s (Some i) of
         None \<Rightarrow> True
       | Some t \<Rightarrow> regular_or_absent (disk s (bare s path)) \<and>
                   regular_or_absent (disk s (placeholder s path)) \<and>
                   tag_matches s path t))"

definition consistent :: "world \<Rightarrow> bool" where
  "consistent s =
     (dummy_ending (converter s) \<noteq> [] \<and> 0 < next_inode (inode_store s) \<and>
      distinct (map fst (paths (inode_store s))) \<and>
      distinct (map snd (paths (inode_store s))) \<and>
      (\<forall>(path, i) \<in> set (paths (inode_store s)). entry_ok s path i))"

definition rekey :: "string \<Rightarrow> string \<Rightarrow> string \<times> nat \<Rightarrow> string \<times> nat" where
  "rekey old_path new_path = (\<lambda>(p, i). if p = old_path then (new_path, i) else (p, i))"

subsection \<open>Example worlds\<close>

text \<open>
  A cache rooted at \<open>/cache\<close> with the ending \<open>.dummy\<close>. \<open>empty_world\<close> has no
  file. In \<open>remote_world r\<close> the file \<open>/b\<close> is inode 1 in remote state: its
  placeholder holds the serialized dictionary of the spec's scenario, and the remote
  answers a download of inode 1 with \<open>r\<close> (\<open>None\<close>: the connection fails).
\<close>

definition empty_world :: world where
  "empty_world =
     \<lparr>converter = \<lparr>cache_root = ''/cache'', dummy_ending = ''.dummy''\<rparr>,
      state_store = (\<lambda>_. None),
      inode_store = \<lparr>paths = [], next_inode = 1\<rparr>,
      api = (\<lambda>_. None),
      disk = (\<lambda>_. None),
      fds = (\<lambda>_. None),
      next_fd = 3, euid = 1000, egid = 1000, clock = 5000, trace = []\<rparr>"

definition scenario_stat :: "(string \<times> int) list" where
  "scenario_stat = [(''st_atime'', 1000), (''st_mtime'', 2000), (''st_size'', 3)]"

definition stub :: "string \<Rightarrow> node" where
  "stub bytes =
     \<lparr>kind = Regular, content = bytes, st_mode = 420, st_uid = 1000, st_gid = 1000,
      st_atime = 4000, st_mtime = 3000\<rparr>"

definition remote_world :: "string option \<Rightarrow> world" where
  "remote_world r =
     empty_world
       \<lparr>state_store := (\<lambda>_. None)(Some 1 := Some Remote),
        inode_store := \<lparr>paths = [(''/b'', 1)], next_inode = 2\<rparr>,
        api := (\<lambda>_. None)(Some 1 := r),
        disk := (\<lambda>_. None)(''/cache/b.dummy'' := Some (stub (json_dumps scenario_stat)))\<rparr>"

text \<open>
  In \<open>resident_world t\<close> the file \<open>/a\<close> is inode 1 with tag \<open>t\<close> and its bytes
  \<open>hello\<close> at the bare cache path; in \<open>open_handle_world t\<close>
  descriptor 3 is open on it for writing. \<open>two_files_world\<close> has the remote file
  \<open>/b\<close> and a dirty file \<open>/c\<close>. \<open>both_forms_world\<close> is what \<open>create\<close> leaves
  when it is called on the remote file \<open>/b\<close>: the placeholder and a new bare file.
\<close>

definition resident_world :: "tag \<Rightarrow> world" where
  "resident_world t =
     empty_world
       \<lparr>state_store := (\<lambda>_. None)(Some 1 := Some t),
        inode_store := \<lparr>paths = [(''/a'', 1)], next_inode = 2\<rparr>,
        api := (\<lambda>_. None)(Some 1 := Some ''hello''),
        disk := (\<lambda>_. None)(''/cache/a'' := Some (stub ''hello''))\<rparr>"


definition open_handle_world :: "tag \<Rightarrow> world" where
  "open_handle_world t =
     (resident_world t)
       \<lparr>fds := (\<lambda>_. None)(3 := Some \<lparr>target = Linked ''/cache/a'', h_flags = [O_WRONLY],
                                        offset = 0\<rparr>),
        next_fd := 4\<rparr>"

definition two_files_world :: world where
  "two_files_world =
     (remote_world None)
       \<lparr>state_store := (\<lambda>_. None)(Some 1 := Some Remote, Some 2 := Some Dirty),
        inode_store := \<lparr>paths = [(''/b'', 1), (''/c'', 2)], next_inode = 3\<rparr>,
        disk := (disk (remote_world None))(''/cache/c'' := Some (stub ''old''))\<rparr>"

definition both_forms_world :: world where
  "both_forms_world = snd (create ''/b'' 420 (remote_world None))"

section \<open>Proof tools\<close>

lemmas monad_defs = succeed_def raise_def andthen_def try_except_def log_def PathLock_def
lemmas converter_defs = to_cache_path_def add_dummy_ending_def is_dummy_def
lemmas registry_defs = get_inode_def get_paths_def create_path_def delete_path_def
  rename_paths_def
lemmas store_defs = set_tag_def set_dirty_def set_remote_def set_downloaded_def
  set_todelete_def is_clean_def is_remote_def exists_def
lemmas ranker_defs = handle_inode_access_def handle_inode_delete_def download_def
lemmas os_defs = os_path_exists_def os_path_islink_def os_open_def alloc_fd_def
  os_lseek_def os_read_def os_write_def os_rename_def move_node_def os_unlink_def os_mkdir_def
  os_rmdir_def os_utime_def file_read_def file_open_w_def file_write_def
  file_truncate_def get_stat_dictionary_def open_without_changing_times_def json_load_def dict_item_def
  first_item_def is_link_def new_file_def existing_def
lemmas example_defs = empty_world_def remote_world_def scenario_stat_def stub_def
  resident_world_def open_handle_world_def two_files_world_def
lemmas event_defs = is_ranker_def is_disk_effect_def observable_def is_lock_def
lemmas json_eval = json_dumps_def json_member_def show_int_def show_nat.simps digit_char_def
  json_loads_def is_space_def is_digit_def number_value_def dec_def digit_val_def

subsection \<open>Paths that are no symbolic links resolve to themselves\<close>

lemma resolve_absent [simp]: "d p = None \<Longrightarrow> resolve d p = Some p"
  by (simp add: resolve_def eval_nat_numeral)

lemma resolve_plain [simp]: "d p = Some nd \<Longrightarrow> kind nd \<noteq> Symlink \<Longrightarrow> resolve d p = Some p"
  by (simp add: resolve_def eval_nat_numeral)

lemma path_exists_absent [simp]: "d p = None \<Longrightarrow> \<not> path_exists d p"
  by (simp add: path_exists_def)

lemma path_exists_plain [simp]: "d p = Some nd \<Longrightarrow> kind nd \<noteq> Symlink \<Longrightarrow> path_exists d p"
  by (simp add: path_exists_def)

subsection \<open>Reading back what \<open>json_dumps\<close> wrote\<close>

declare show_nat.simps [simp del]

lemma below_ten:
  "n < 10 \<Longrightarrow> n = 0 \<or> n = 1 \<or> n = 2 \<or> n = 3 \<or> n = 4 \<or> n = 5 \<or> n = 6 \<or> n = 7 \<or> n = 8 \<or> n = (9::nat)"
  by arith

lemma digit_char_is_digit: "n < 10 \<Longrightarrow> is_digit (digit_char n)"
  by (drule below_ten) (auto simp: is_digit_def digit_char_def)

lemma digit_val_digit_char: "n < 10 \<Longrightarrow> digit_val (digit_char n) = n"
  by (drule below_ten) (auto simp: digit_val_def digit_char_def)

lemma is_digit_not_special:
  "is_digit c \<Longrightarrow> \<not> is_space c \<and> c \<noteq> CHR '','' \<and> c \<noteq> CHR ''}'' \<and> c \<noteq> CHR ''-''"
  by (auto simp: is_digit_def is_space_def)

lemma show_nat_digits: "list_all is_digit (show_nat n)"
proof (induction n rule: show_nat.induct)
  case (1 n)
  show ?case
  proof (cases "n < 10")
    case True
    then show ?thesis by (subst show_nat.simps) (simp add: digit_char_is_digit)
  next
    case False
    with "1" have "list_all is_digit (show_nat (n div 10))" by simp
    with False show ?thesis by (subst show_nat.simps) (simp add: digit_char_is_digit)
  qed
qed

lemma show_nat_nonempty: "show_nat n \<noteq> []"
  by (subst show_nat.simps) simp

lemma dec_snoc: "dec (ds @ [c]) = 10 * dec ds + digit_val c"
  by (simp add: dec_def)

lemma dec_show_nat: "dec (show_nat n) = n"
proof (induction n rule: show_nat.induct)
  case (1 n)
  show ?case
  proof (cases "n < 10")
    case True
    then show ?thesis
      by (subst show_nat.simps) (simp add: dec_def digit_val_digit_char)
  next
    case False
    with "1" have "dec (show_nat (n div 10)) = n div 10" by simp
    with False show ?thesis
      by (subst show_nat.simps) (simp add: dec_snoc digit_val_digit_char)
  qed
qed

lemma show_nat_leading_zero:
  assumes "hd (show_nat n) = CHR ''0''"
  shows "show_nat n = ''0''"
  using assms
proof (induction n rule: show_nat.induct)
  case (1 n)
  show ?case
  proof (cases "n < 10")
    case True
    with "1.prems" have "digit_val (digit_char n) = digit_val (CHR ''0'')"
      by (subst (asm) show_nat.simps) simp
    with True have "n = 0" by (simp add: digit_val_digit_char) (simp add: digit_val_def)
    then show ?thesis by (subst show_nat.simps) (simp add: digit_char_def)
  next
    case False
    from False "1.prems" have "hd (show_nat (n div 10)) = CHR ''0''"
      by (subst (asm) show_nat.simps) (simp add: show_nat_nonempty)
    with False "1.IH" have "show_nat (n div 10) = ''0''" by simp
    then have "dec (show_nat (n div 10)) = 0" by (simp add: dec_def digit_val_def)
    then have "n div 10 = 0" by (simp add: dec_show_nat)
    with False show ?thesis by simp
  qed
qed

lemma run_key:
  "CHR 0x22 \<notin> set cs \<Longrightarrow> CHR 0x5C \<notin> set cs \<Longrightarrow>
   foldl jstep (J_in_key es k) cs = J_in_key es (k @ cs)"
  by (induction cs arbitrary: k) auto

lemma run_digits:
  "list_all is_digit cs \<Longrightarrow> ds \<noteq> [] \<Longrightarrow> (cs \<noteq> [] \<Longrightarrow> ds \<noteq> ''0'') \<Longrightarrow>
   foldl jstep (J_number es k neg ds) cs = J_number es k neg (ds @ cs)"
proof (induction cs arbitrary: ds)
  case Nil
  then show ?case by simp
next
  case (Cons c cs)
  from Cons.prems(2) have "ds @ [c] \<noteq> ''0''" by (cases ds) auto
  with Cons show ?case by simp
qed

lemma run_show_nat:
  "foldl jstep (J_number es k neg [c]) cs = J_number es k neg (show_nat n)"
  if "show_nat n = c # cs"
proof -
  from that show_nat_digits [of n] have d: "list_all is_digit cs" by simp
  have "cs \<noteq> [] \<Longrightarrow> [c] \<noteq> ''0''"
  proof
    assume "cs \<noteq> []" and "[c] = ''0''"
    with that have "hd (show_nat n) = CHR ''0''" by simp
    then have "show_nat n = ''0''" by (rule show_nat_leading_zero)
    with that \<open>cs \<noteq> []\<close> show False by simp
  qed
  with d have "foldl jstep (J_number es k neg [c]) cs = J_number es k neg ([c] @ cs)"
    by (intro run_digits) auto
  with that show ?thesis by simp
qed

lemma run_show_int:
  "foldl jstep (J_value es k) (show_int v) = J_number es k (v < 0) (show_nat (nat \<bar>v\<bar>))"
proof -
  obtain c cs where cs: "show_nat (nat \<bar>v\<bar>) = c # cs"
    using show_nat_nonempty [of "nat \<bar>v\<bar>"] by (cases "show_nat (nat \<bar>v\<bar>)") auto
  with show_nat_digits [of "nat \<bar>v\<bar>"] have c: "is_digit c" by simp
  show ?thesis
  proof (cases "v < 0")
    case True
    then have "show_int v = CHR ''-'' # c # cs"
      using cs by (simp add: show_int_def abs_if)
    with c True run_show_nat [OF cs] show ?thesis
      by (simp add: is_space_def)
  next
    case False
    then have "show_int v = c # cs"
      using cs by (simp add: show_int_def abs_if)
    with c False run_show_nat [OF cs] is_digit_not_special [OF c] show ?thesis
      by simp
  qed
qed

lemma number_value_show_nat: "number_value (v < 0) (show_nat (nat \<bar>v\<bar>)) = v"
  by (simp add: number_value_def dec_show_nat)

lemma run_member:
  assumes "key_ok k" and "st = J_open es \<or> st = J_comma es"
  shows "foldl jstep st (json_member (k, v)) = J_number es k (v < 0) (show_nat (nat \<bar>v\<bar>))"
proof -
  have "foldl jstep st (json_member (k, v)) =
        foldl jstep (J_in_key es []) (k @ [CHR 0x22] @ '': '' @ show_int v)"
    using assms(2) by (auto simp: json_member_def is_space_def)
  also have "\<dots> = foldl jstep (J_in_key es k) ([CHR 0x22] @ '': '' @ show_int v)"
    using assms(1) by (simp add: run_key key_ok_def)
  also have "\<dots> = foldl jstep (J_value es k) (show_int v)"
    by (simp add: is_space_def)
  finally show ?thesis by (simp add: run_show_int)
qed

lemma run_members:
  assumes "d \<noteq> []" and "list_all (\<lambda>e. key_ok (fst e)) d"
    and "st = J_open es \<or> st = J_comma es"
  shows "foldl jstep st (json_members d @ ''}'') = J_done (es @ d)"
  using assms
proof (induction d arbitrary: es st rule: json_members.induct)
  case 1
  then show ?case by simp
next
  case (2 e)
  obtain k v where e: "e = (k, v)" by (cases e)
  with "2.prems" have "foldl jstep st (json_member e) =
      J_number es k (v < 0) (show_nat (nat \<bar>v\<bar>))"
    by (simp add: run_member)
  then show ?case
    using e by (simp add: number_value_show_nat is_digit_def is_space_def)
next
  case (3 e e' es')
  obtain k v where e: "e = (k, v)" by (cases e)
  with "3.prems" have "foldl jstep st (json_member e) =
      J_number es k (v < 0) (show_nat (nat \<bar>v\<bar>))"
    by (simp add: run_member)
  then have "foldl jstep st (json_members (e # e' # es') @ ''}'') =
      foldl jstep (J_comma (es @ [e])) (json_members (e' # es') @ ''}'')"
    using e by (simp add: number_value_show_nat is_digit_def is_space_def)
  also have "\<dots> = J_done ((es @ [e]) @ e' # es')"
    using "3.prems" by (intro "3.IH") auto
  finally show ?case by simp
qed

lemma json_roundtrip:
  assumes "list_all (\<lambda>e. key_ok (fst e)) d"
  shows "json_loads (json_dumps d) = Some d"
proof (cases "d = []")
  case True
  then show ?thesis by (simp add: json_loads_def json_dumps_def is_space_def)
next
  case False
  with assms have "foldl jstep (J_open []) (json_members d @ ''}'') = J_done ([] @ d)"
    by (intro run_members) auto
  then show ?thesis by (simp add: json_loads_def json_dumps_def is_space_def)
qed


subsection \<open>Suffixes and frames\<close>

lemma ends_with_append [simp]: "ends_with e (p @ e)"
  by (simp add: ends_with_def)

lemma ends_with_append2 [simp]: "ends_with e (p @ q @ e)"
  using ends_with_append [of e "p @ q"] by simp

lemma path_exists_present: "path_exists d p \<Longrightarrow> d p \<noteq> None"
  by (cases "d p") auto

lemma bare_frame [simp]:
  "bare (state_store_update f1 s) = bare s" "bare (inode_store_update f2 s) = bare s"
  "bare (api_update f3 s) = bare s" "bare (disk_update f4 s) = bare s"
  "bare (fds_update f5 s) = bare s" "bare (next_fd_update f6 s) = bare s"
  "bare (euid_update f7 s) = bare s" "bare (egid_update f8 s) = bare s"
  "bare (clock_update f9 s) = bare s" "bare (trace_update f10 s) = bare s"
  by (simp_all add: bare_def fun_eq_iff)

lemma placeholder_frame [simp]:
  "placeholder (state_store_update f1 s) = placeholder s"
  "placeholder (inode_store_update f2 s) = placeholder s"
  "placeholder (api_update f3 s) = placeholder s" "placeholder (disk_update f4 s) = placeholder s"
  "placeholder (fds_update f5 s) = placeholder s" "placeholder (next_fd_update f6 s) = placeholder s"
  "placeholder (euid_update f7 s) = placeholder s" "placeholder (egid_update f8 s) = placeholder s"
  "placeholder (clock_update f9 s) = placeholder s" "placeholder (trace_update f10 s) = placeholder s"
  by (simp_all add: placeholder_def fun_eq_iff)

lemma form_of_frame [simp]:
  "form_of (state_store_update f1 s) = form_of s" "form_of (inode_store_update f2 s) = form_of s"
  "form_of (api_update f3 s) = form_of s"
  "form_of (fds_update f5 s) = form_of s" "form_of (next_fd_update f6 s) = form_of s"
  "form_of (euid_update f7 s) = form_of s" "form_of (egid_update f8 s) = form_of s"
  "form_of (clock_update f9 s) = form_of s" "form_of (trace_update f10 s) = form_of s"
  by (simp_all add: form_of_def fun_eq_iff)

lemma get_path_or_dummy_eval:
  "get_path_or_dummy p s =
     (Inr (form_of s p),
      s\<lparr>trace := trace s @
          (if path_exists (disk s) (bare s p) then [Os_path_exists (bare s p)]
           else [Os_path_exists (bare s p), Os_path_exists (placeholder s p)])\<rparr>)"
  by (simp add: get_path_or_dummy_def form_of_def monad_defs converter_defs os_path_exists_def
      bare_def placeholder_def)

subsection \<open>What an action adds to the trace\<close>

lemma emitsI: "(\<And>s. \<exists>evs. trace (snd (m s)) = trace s @ evs \<and> list_all P evs) \<Longrightarrow> emits P m"
  by (simp add: emits_def)

lemma emits_succeed [intro!]: "emits P (succeed x)"
  by (simp add: emits_def succeed_def)

lemma emits_raise [intro!]: "emits P (raise e)"
  by (simp add: emits_def raise_def)

lemma emits_andthen [intro!]:
  assumes "emits P m" and "\<And>x. emits P (f x)"
  shows "emits P (andthen m f)"
proof (rule emitsI)
  fix s
  from assms(1) obtain evs where m: "trace (snd (m s)) = trace s @ evs" "list_all P evs"
    by (auto simp: emits_def)
  show "\<exists>evs. trace (snd (andthen m f s)) = trace s @ evs \<and> list_all P evs"
  proof (cases "m s")
    case (Pair r s1)
    show ?thesis
    proof (cases r)
      case (Inl e)
      with Pair m show ?thesis by (auto simp: andthen_def)
    next
      case (Inr x)
      from assms(2) [of x] obtain evs' where
        "trace (snd (f x s1)) = trace s1 @ evs'" "list_all P evs'"
        by (auto simp: emits_def)
      with Pair Inr m show ?thesis by (auto simp: andthen_def)
    qed
  qed
qed

lemma emits_try_except [intro!]:
  assumes "emits P m" and "\<And>e. emits P (h e)"
  shows "emits P (try_except m h)"
proof (rule emitsI)
  fix s
  from assms(1) obtain evs where m: "trace (snd (m s)) = trace s @ evs" "list_all P evs"
    by (auto simp: emits_def)
  show "\<exists>evs. trace (snd (try_except m h s)) = trace s @ evs \<and> list_all P evs"
  proof (cases "m s")
    case (Pair r s1)
    show ?thesis
    proof (cases r)
      case (Inr x)
      with Pair m show ?thesis by (auto simp: try_except_def)
    next
      case (Inl e)
      from assms(2) [of e] obtain evs' where
        "trace (snd (h e s1)) = trace s1 @ evs'" "list_all P evs'"
        by (auto simp: emits_def)
      with Pair Inl m show ?thesis by (auto simp: try_except_def)
    qed
  qed
qed

lemma emits_PathLock [intro!]:
  assumes "P (Lock_acquire p a b c)" and "P (Lock_release p)" and "emits P body"
  shows "emits P (PathLock p a b c body)"
proof (rule emitsI)
  fix s
  from assms(3) obtain evs where
    "trace (snd (body (log (Lock_acquire p a b c) s))) =
       trace (log (Lock_acquire p a b c) s) @ evs" "list_all P evs"
    by (auto simp: emits_def)
  with assms(1,2) show "\<exists>evs. trace (snd (PathLock p a b c body s)) = trace s @ evs \<and> list_all P evs"
    by (auto simp: PathLock_def log_def split: prod.splits)
qed

lemma emits_if [intro!]: "emits P m \<Longrightarrow> emits P m' \<Longrightarrow> emits P (if b then m else m')"
  by simp

lemma emits_converter [intro!]:
  "emits P (to_cache_path p)" "emits P (add_dummy_ending p)" "emits P (is_dummy p)"
  by (simp_all add: emits_def converter_defs)

lemma emits_registry [intro!]:
  "P (Registry_get_inode p) \<Longrightarrow> emits P (get_inode p)"
  "P (Registry_get_paths i) \<Longrightarrow> emits P (get_paths i)"
  "P (Registry_create_path p) \<Longrightarrow> emits P (create_path p)"
  "P (Registry_delete_path p) \<Longrightarrow> emits P (delete_path p)"
  "P (Registry_rename_paths p q) \<Longrightarrow> emits P (rename_paths p q)"
  by (simp_all add: emits_def registry_defs log_def Let_def)

lemma emits_store [intro!]:
  "P (Store_set_dirty i) \<Longrightarrow> emits P (set_dirty i)"
  "P (Store_set_remote i) \<Longrightarrow> emits P (set_remote i)"
  "P (Store_set_downloaded i) \<Longrightarrow> emits P (set_downloaded i)"
  "P (Store_set_todelete i) \<Longrightarrow> emits P (set_todelete i)"
  "P (Store_is_clean i) \<Longrightarrow> emits P (is_clean i)"
  "P (Store_is_remote i) \<Longrightarrow> emits P (is_remote i)"
  "P (Store_exists i) \<Longrightarrow> emits P (exists i)"
  by (simp_all add: emits_def store_defs log_def)

lemma emits_ranker [intro!]:
  "P (Ranker_access i) \<Longrightarrow> emits P (handle_inode_access i)"
  "P (Ranker_delete i) \<Longrightarrow> emits P (handle_inode_delete i)"
  "P (Api_download i) \<Longrightarrow> emits P (download i)"
  by (simp_all add: emits_def ranker_defs log_def split: option.splits)

lemma emits_os [intro!]:
  "P (Os_path_exists p) \<Longrightarrow> emits P (os_path_exists p)"
  "P (Os_path_islink po) \<Longrightarrow> emits P (os_path_islink po)"
  "P (Os_path_islink po) \<Longrightarrow> emits P (is_link po)"
  "P (Os_open p flags) \<Longrightarrow> emits P (os_open p flags mode)"
  "P (Os_lseek fd pos) \<Longrightarrow> emits P (os_lseek fd pos)"
  "P (Os_read fd sz) \<Longrightarrow> emits P (os_read fd sz)"
  "P (Os_write fd bytes) \<Longrightarrow> emits P (os_write fd bytes)"
  "P (Os_rename p q) \<Longrightarrow> emits P (os_rename p q)"
  "P (Os_unlink po) \<Longrightarrow> emits P (os_unlink po)"
  "P (Os_mkdir p) \<Longrightarrow> emits P (os_mkdir p mode)"
  "P (Os_rmdir p) \<Longrightarrow> emits P (os_rmdir p)"
  "P (Os_utime p a m) \<Longrightarrow> emits P (os_utime p a m)"
  "P (Os_stat p) \<Longrightarrow> emits P (get_stat_dictionary p)"
  by (auto simp: emits_def os_defs log_def Let_def put_handle_node_def
      split: option.splits sum.splits prod.splits target.splits)

lemma emits_file [intro!]:
  "P (File_read p) \<Longrightarrow> emits P (file_read p)"
  "P (File_open_w p) \<Longrightarrow> emits P (file_open_w p)"
  "P (File_write p bytes) \<Longrightarrow> emits P (file_write p bytes)"
  "P (File_truncate p len) \<Longrightarrow> emits P (file_truncate p len)"
  "P (File_write_keep_times p bytes) \<Longrightarrow> emits P (open_without_changing_times p bytes)"
  "emits P (json_load bytes)" "emits P (dict_item d k)" "emits P (first_item xs)"
  by (auto simp: emits_def os_defs log_def Let_def succeed_def raise_def
      split: option.splits sum.splits prod.splits list.splits)

lemmas emits_intros = emits_succeed emits_raise emits_andthen emits_try_except emits_PathLock
  emits_if emits_converter emits_registry emits_store emits_ranker emits_os emits_file

lemma emits_get_path_or_dummy [intro!]:
  "(\<And>q. P (Os_path_exists q)) \<Longrightarrow> emits P (get_path_or_dummy p)"
  unfolding get_path_or_dummy_def by (intro emits_andthen emits_if emits_converter emits_os emits_succeed)

lemma create_no_lock: "emits (\<lambda>e. \<not> is_lock e) (create p mode)"
  unfolding create_def by (auto simp: is_lock_def)

lemma mkdir_no_lock: "emits (\<lambda>e. \<not> is_lock e) (mkdir p mode)"
  unfolding mkdir_def by (auto simp: is_lock_def)

lemma getattributes_no_lock: "emits (\<lambda>e. \<not> is_lock e) (getattributes p)"
  unfolding getattributes_def by (auto simp: is_lock_def split: option.splits)

lemma grows_replace_dummy_inner: "emits (\<lambda>_. True) (replace_dummy_inner i)"
  unfolding replace_dummy_inner_def by auto

lemma grows_get_path: "emits (\<lambda>_. True) (get_path p)"
  unfolding get_path_def by (auto intro: grows_replace_dummy_inner)

lemma grows_delete_file: "emits (\<lambda>_. True) (delete_file p)"
  unfolding delete_file_def by auto

lemma grows_rmdir: "emits (\<lambda>_. True) (rmdir p)"
  unfolding rmdir_def by auto

lemma new_events_append [simp]: "trace s' = trace s @ evs \<Longrightarrow> new_events s s' = evs"
  by (simp add: new_events_def)

lemma PathLock_trace:
  assumes "emits (\<lambda>_. True) body"
  shows "\<exists>evs. trace (snd (PathLock p a b c body s)) =
           trace s @ Lock_acquire p a b c # evs @ [Lock_release p]"
proof -
  from assms obtain evs where
    "trace (snd (body (log (Lock_acquire p a b c) s))) =
       trace (log (Lock_acquire p a b c) s) @ evs"
    by (auto simp: emits_def)
  then show ?thesis
    by (auto simp: PathLock_def log_def split: prod.splits)
qed

lemma PathLock_under_lock:
  assumes "emits (\<lambda>_. True) body"
  shows "under_lock p a r (new_events s (snd (PathLock p a (Some True) (Some r) body s)))"
proof -
  from PathLock_trace [OF assms] obtain evs where
    "trace (snd (PathLock p a (Some True) (Some r) body s)) =
       trace s @ Lock_acquire p a (Some True) (Some r) # evs @ [Lock_release p]"
    by blast
  then show ?thesis by (simp add: under_lock_def)
qed

lemma emits_new_events:
  "emits P m \<Longrightarrow> list_all P (new_events s (snd (m s)))"
  by (auto simp: emits_def new_events_def dest!: spec [of _ s])

lemma emits_trace: "emits P m \<Longrightarrow> \<exists>evs. trace (snd (m s)) = trace s @ evs \<and> list_all P evs"
  by (simp add: emits_def)

lemma unlink_missing:
  assumes "form_of s p = None"
  shows "fst (unlink p s) = Inl TypeError \<and>
         new_events s (snd (unlink p s)) = probes s p @ [Os_path_islink None]"
  using assms
  by (simp add: unlink_def andthen_def get_path_or_dummy_eval is_link_def os_path_islink_def
      log_def probes_def new_events_def)

lemma unlink_symlink:
  assumes "form_of s p = Some q" and "map_option kind (disk s q) = Some Symlink"
  shows "new_events s (snd (unlink p s)) =
           probes s p @ [Os_path_islink (Some q), Os_unlink (Some q)]"
  using assms
  by (auto simp: unlink_def andthen_def get_path_or_dummy_eval is_link_def os_path_islink_def
      log_def probes_def new_events_def os_unlink_def Let_def split: option.splits)

lemma unlink_locked:
  assumes "form_of s p = Some q" and "map_option kind (disk s q) \<noteq> Some Symlink"
  shows "unlink p s =
           PathLock p None (Some True) (Some 10) (delete_file p)
             (s\<lparr>trace := trace s @ probes s p @ [Os_path_islink (Some q)]\<rparr>) \<and>
         under_lock p None 10 (drop (length (probes s p) + 1) (new_events s (snd (unlink p s))))"
proof -
  define s1 where "s1 = s\<lparr>trace := trace s @ probes s p @ [Os_path_islink (Some q)]\<rparr>"
  from assms have u: "unlink p s = PathLock p None (Some True) (Some 10) (delete_file p) s1"
    by (auto simp: unlink_def andthen_def get_path_or_dummy_eval is_link_def os_path_islink_def
        log_def probes_def s1_def split: option.splits)
  from PathLock_trace [OF grows_delete_file, of p None "Some True" "Some 10" p s1]
  obtain evs where "trace (snd (PathLock p None (Some True) (Some 10) (delete_file p) s1)) =
      trace s1 @ Lock_acquire p None (Some True) (Some 10) # evs @ [Lock_release p]"
    by blast
  with u have "new_events s (snd (unlink p s)) =
      (probes s p @ [Os_path_islink (Some q)]) @
        Lock_acquire p None (Some True) (Some 10) # evs @ [Lock_release p]"
    by (simp add: s1_def new_events_def)
  then have "drop (length (probes s p) + 1) (new_events s (snd (unlink p s))) =
      Lock_acquire p None (Some True) (Some 10) # evs @ [Lock_release p]"
    by simp
  then have "under_lock p None 10
      (drop (length (probes s p) + 1) (new_events s (snd (unlink p s))))"
    by (simp add: under_lock_def)
  with u show ?thesis by (simp add: s1_def)
qed

lemma read_events:
  "read p sz pos fh s = (Inr r, s') \<Longrightarrow>
   observable (new_events s s') = [Ranker_access (inode_of (inode_store s) p), Os_read fh sz]"
  by (auto simp: read_def monad_defs registry_defs ranker_defs os_defs Let_def
      put_handle_node_def event_defs new_events_def
      split: option.splits if_splits target.splits)

lemma write_events:
  "write_data p bytes pos fh s = (Inr n, s') \<Longrightarrow>
   observable (new_events s s') = [Ranker_access (inode_of (inode_store s) p), Os_write fh bytes]"
  by (auto simp: write_data_def monad_defs registry_defs ranker_defs store_defs os_defs Let_def
      put_handle_node_def event_defs new_events_def
      split: option.splits if_splits target.splits)

lemma create_events:
  "create p mode s = (Inr fd, s') \<Longrightarrow>
   observable (new_events s s') =
     [Os_open (bare s p) [O_WRONLY, O_CREAT, O_TRUNC],
      Ranker_access (inode_of (inode_store s') p)] \<and>
   notified_once_after (new_events s s')"
  by (auto simp: notified_once_after_def create_def monad_defs converter_defs registry_defs ranker_defs store_defs
      os_defs Let_def event_defs new_events_def bare_def
      split: option.splits if_splits)

lemma delete_file_events:
  "delete_file p s = (Inr u, s') \<Longrightarrow>
   observable (new_events s s') =
     [Os_unlink (form_of s p), Ranker_delete (inode_of (inode_store s) p)] \<and>
   notified_once_after (new_events s s')"
  by (auto simp: notified_once_after_def delete_file_def andthen_def get_path_or_dummy_eval registry_defs ranker_defs
      store_defs os_unlink_def log_def Let_def event_defs new_events_def
      split: option.splits if_splits)

lemma replace_dummy_inner_quiet: "emits (\<lambda>e. \<not> is_ranker e) (replace_dummy_inner i)"
  unfolding replace_dummy_inner_def by (intro emits_intros) (simp_all add: is_ranker_def)

lemma get_path_quiet: "emits (\<lambda>e. \<not> is_ranker e) (get_path p)"
  unfolding get_path_def
  by (intro emits_intros replace_dummy_inner_quiet) (simp_all add: is_ranker_def)

lemma open_file_quiet: "emits (\<lambda>e. \<not> is_ranker e) (open_file p flags)"
  unfolding open_file_def by (intro emits_intros get_path_quiet) (simp_all add: is_ranker_def)

lemma get_path_result: "get_path p s = (Inr cp, s1) \<Longrightarrow> cp = bare s p"
  by (auto simp: get_path_def andthen_def succeed_def converter_defs os_path_exists_def
      bare_def split: prod.splits sum.splits if_splits)

lemma filter_False: "list_all (\<lambda>e. \<not> P e) xs \<Longrightarrow> filter P xs = []"
  by (induction xs) auto

lemma dropWhile_all: "list_all P xs \<Longrightarrow> dropWhile P (xs @ ys) = dropWhile P ys"
  by (induction xs) auto

lemma truncate_events:
  assumes "truncate p len s = (Inr n, s')"
  shows "filter is_ranker (new_events s s') = [Ranker_access (inode_of (inode_store s) p)] \<and>
    dropWhile (\<lambda>e. \<not> is_ranker e) (observable (new_events s s')) =
      [Ranker_access (inode_of (inode_store s) p), File_truncate (bare s p) len]"
proof -
  define s0 where "s0 = s\<lparr>trace := trace s @ [Lock_acquire p None (Some True) (Some 100),
      Registry_get_inode p]\<rparr>"
  define i where "i = inode_of (inode_store s) p"
  obtain r1 s1 where g: "get_path p s0 = (r1, s1)" by (cases "get_path p s0")
  from emits_trace [OF get_path_quiet, of p s0] g obtain evs where
    evs: "trace s1 = trace s0 @ evs" "list_all (\<lambda>e. \<not> is_ranker e) evs"
    by auto
  from assms g obtain cp where r1: "r1 = Inr cp"
    by (cases r1) (auto simp: truncate_def PathLock_def andthen_def get_inode_def log_def
        s0_def)
  with g have cp: "cp = bare s p"
    using get_path_result [of p s0 cp s1] by (simp add: s0_def)
  from assms g r1 cp evs(1) have "trace s' =
      trace s @ [Lock_acquire p None (Some True) (Some 100), Registry_get_inode p] @ evs @
        [Store_set_dirty i, Ranker_access i, File_truncate (bare s p) len, Lock_release p]"
    by (auto simp: truncate_def PathLock_def andthen_def get_inode_def log_def s0_def i_def
        store_defs ranker_defs file_truncate_def Let_def
        split: sum.splits prod.splits if_splits)
  then have ne: "new_events s s' =
      [Lock_acquire p None (Some True) (Some 100), Registry_get_inode p] @ evs @
        [Store_set_dirty i, Ranker_access i, File_truncate (bare s p) len, Lock_release p]"
    by simp
  have q: "list_all (\<lambda>e. \<not> is_ranker e) (observable evs)"
    using evs(2) by (induction evs) (auto simp: observable_def)
  from evs(2) have "filter is_ranker (new_events s s') = [Ranker_access i]"
    unfolding ne by (simp add: filter_False is_ranker_def)
  moreover have "observable (new_events s s') =
      observable evs @ [Ranker_access i, File_truncate (bare s p) len]"
    unfolding ne by (simp add: event_defs)
  with q have "dropWhile (\<lambda>e. \<not> is_ranker e) (observable (new_events s s')) =
      [Ranker_access i, File_truncate (bare s p) len]"
    by (simp add: dropWhile_all is_ranker_def)
  ultimately show ?thesis by (simp add: i_def)
qed

subsection \<open>Stat dictionaries\<close>

lemma stat_dictionary_roundtrip:
  "json_loads (json_dumps (stat_dictionary nd)) = Some (stat_dictionary nd)"
  by (rule json_roundtrip) (simp add: stat_dictionary_def key_ok_def)

lemma stat_dictionary_times:
  "dict_get (stat_dictionary nd) ''st_atime'' = Some (st_atime nd)"
  "dict_get (stat_dictionary nd) ''st_mtime'' = Some (st_mtime nd)"
  by (simp_all add: stat_dictionary_def dict_get_def)

lemma getattributes_result:
  "fst (getattributes path s) =
     (if path_exists (disk s) (bare s path)
      then (if ends_with (dummy_ending (converter s)) (bare s path)
            then fst (andthen (file_read (bare s path)) json_load
                        (log (Os_path_exists (bare s path)) s))
            else (case disk s (bare s path) of
                    None \<Rightarrow> Inl (OSError ENOENT)
                  | Some nd \<Rightarrow> Inr (stat_dictionary nd)))
      else if path_exists (disk s) (placeholder s path)
      then fst (andthen (file_read (placeholder s path)) json_load
                  (log (Os_path_exists (placeholder s path))
                     (log (Os_path_exists (bare s path)) s)))
      else Inl (FuseOSError ENOENT))"
  by (simp add: getattributes_def get_path_or_dummy_def monad_defs converter_defs
      os_path_exists_def get_stat_dictionary_def bare_def placeholder_def
      split: option.splits)

lemma read_json_not_fuse_error:
  "fst (andthen (file_read p) json_load s) \<noteq> Inl (FuseOSError e)"
  by (auto simp: andthen_def file_read_def json_load_def existing_def Let_def raise_def
      succeed_def split: option.splits sum.splits prod.splits if_splits)

lemma read_json_regular:
  "disk s p = Some nd \<Longrightarrow> kind nd = Regular \<Longrightarrow>
   fst (andthen (file_read p) json_load s) =
     (case json_loads (content nd) of None \<Rightarrow> Inl JSONDecodeError | Some d \<Rightarrow> Inr d)"
  by (simp add: andthen_def file_read_def json_load_def existing_def Let_def raise_def
      succeed_def log_def split: option.splits)

lemma both_forms_world_eval:
  "fst (create ''/b'' 420 (remote_world None)) = Inr 3 \<and>
   disk both_forms_world = (disk (remote_world None))
       (''/cache/b'' := Some \<lparr>kind = Regular, content = [], st_mode = 420, st_uid = 1000,
           st_gid = 1000, st_atime = 5000, st_mtime = 5000\<rparr>) \<and>
   converter both_forms_world = converter empty_world"
  by (simp add: both_forms_world_def create_def monad_defs converter_defs
        registry_defs store_defs ranker_defs os_defs example_defs wants_write_def)

subsection \<open>Every operation keeps tags and disk in step\<close>

lemma consistent_iff: "consistent s \<longleftrightarrow> well_formed s \<and> tags_match_disk s"
  by (auto simp: consistent_def well_formed_def tags_match_disk_def entry_ok_def list_all_iff
      split: option.splits)

lemma regular_presence:
  "regular_or_absent (d q) \<Longrightarrow> path_exists d q = (d q \<noteq> None)"
  by (cases "d q") (auto simp: regular_or_absent_def)

lemma entry_frame:
  assumes "entry_ok s p i"
    and "converter s' = converter s"
    and "next_inode (inode_store s) \<le> next_inode (inode_store s')"
    and "state_store s' (Some i) = state_store s (Some i)"
    and "map_option kind (disk s' (bare s p)) = map_option kind (disk s (bare s p))"
    and "map_option kind (disk s' (placeholder s p)) = map_option kind (disk s (placeholder s p))"
  shows "entry_ok s' p i"
proof -
  have b: "bare s' p = bare s p" and d: "placeholder s' p = placeholder s p"
    using assms(2) by (simp_all add: bare_def placeholder_def)
  have r: "regular_or_absent (disk s' q) = regular_or_absent (disk s q)"
    if "map_option kind (disk s' q) = map_option kind (disk s q)" for q
    using that by (cases "disk s q"; cases "disk s' q") (auto simp: regular_or_absent_def)
  have n: "(disk s' q \<noteq> None) = (disk s q \<noteq> None)"
    if "map_option kind (disk s' q) = map_option kind (disk s q)" for q
    using that by (cases "disk s q"; cases "disk s' q") auto
  show ?thesis
    using assms(1,2,3,4) r [OF assms(5)] r [OF assms(6)] n [OF assms(5)] n [OF assms(6)]
    by (auto simp: entry_ok_def b d tag_matches_def regular_presence Let_def
        split: option.splits)
qed

lemma forms_apart:
  assumes "dummy_ending (converter s) \<noteq> []"
    and "\<not> ends_with (dummy_ending (converter s)) p"
    and "\<not> ends_with (dummy_ending (converter s)) q"
    and "p \<noteq> q"
  shows "bare s p \<noteq> bare s q" "placeholder s p \<noteq> placeholder s q"
    "bare s p \<noteq> placeholder s q" "placeholder s p \<noteq> bare s q"
  using assms by (auto simp: bare_def placeholder_def)

lemma bare_not_placeholder:
  "dummy_ending (converter s) \<noteq> [] \<Longrightarrow> bare s p \<noteq> placeholder s p"
  by (simp add: bare_def placeholder_def)

lemma consistent_entry: "consistent s \<Longrightarrow> (p, i) \<in> set (paths (inode_store s)) \<Longrightarrow> entry_ok s p i"
  by (auto simp: consistent_def)

lemma inode_of_member:
  "distinct (map fst (paths r)) \<Longrightarrow> inode_of r p = Some i \<longleftrightarrow> (p, i) \<in> set (paths r)"
  by (simp add: inode_of_def)

lemma consistent_inode_of: "consistent s \<Longrightarrow> inode_of (inode_store s) p = Some i \<longleftrightarrow> (p, i) \<in> set (paths (inode_store s))"
  by (simp add: consistent_def inode_of_member)

lemma distinct_snd_unique:
  "distinct (map snd xs) \<Longrightarrow> (p, i) \<in> set xs \<Longrightarrow> (q, i) \<in> set xs \<Longrightarrow> p = q"
  by (induction xs) (auto simp: rev_image_eqI)

lemma distinct_fst_unique:
  "distinct (map fst xs) \<Longrightarrow> (p, i) \<in> set xs \<Longrightarrow> (p, j) \<in> set xs \<Longrightarrow> i = j"
  by (induction xs) (auto simp: rev_image_eqI)

lemma consistent_same_view:
  assumes "consistent s" and "converter s' = converter s" and "inode_store s' = inode_store s"
    and "\<forall>i. state_store s' (Some i) = state_store s (Some i)"
    and "\<forall>q. map_option kind (disk s' q) = map_option kind (disk s q)"
  shows "consistent s'"
  using assms by (auto simp: consistent_def intro!: entry_frame [of s _ _ s'])

lemma consistent_touch_one:
  assumes "consistent s" and "(p0, i0) \<in> set (paths (inode_store s))"
    and "converter s' = converter s" and "inode_store s' = inode_store s"
    and "\<forall>j. j \<noteq> i0 \<longrightarrow> state_store s' (Some j) = state_store s (Some j)"
    and "\<forall>q. q \<noteq> bare s p0 \<longrightarrow> q \<noteq> placeholder s p0 \<longrightarrow>
           map_option kind (disk s' q) = map_option kind (disk s q)"
    and "entry_ok s' p0 i0"
  shows "consistent s'"
proof -
  have "entry_ok s' p i" if m: "(p, i) \<in> set (paths (inode_store s))" for p i
  proof (cases "p = p0")
    case True
    with m assms(1,2) have "i = i0" by (auto simp: consistent_def dest: distinct_fst_unique)
    with True assms(7) show ?thesis by simp
  next
    case False
    with m assms(1,2) have i: "i \<noteq> i0" by (auto simp: consistent_def dest: distinct_snd_unique)
    from assms(1) m have e: "entry_ok s p i" by (rule consistent_entry)
    from assms(1,2) have e0: "entry_ok s p0 i0" by (rule consistent_entry)
    from assms(1) have ne: "dummy_ending (converter s) \<noteq> []" by (simp add: consistent_def)
    from e have pl: "\<not> ends_with (dummy_ending (converter s)) p" by (simp add: entry_ok_def)
    from e0 have pl0: "\<not> ends_with (dummy_ending (converter s)) p0"
      by (simp add: entry_ok_def)
    from forms_apart [OF ne pl pl0 False] e i assms(3,4,5,6) show ?thesis
      by (intro entry_frame [of s p i s']) auto
  qed
  with assms(1,3,4) show ?thesis by (auto simp: consistent_def)
qed

lemma entry_okI:
  assumes "\<not> ends_with (dummy_ending (converter s)) p" and "0 < i"
    and "i < next_inode (inode_store s)"
    and "state_store s (Some i) = Some t"
    and "regular_or_absent (disk s (bare s p))"
    and "regular_or_absent (disk s (placeholder s p))"
    and "(t = Remote) = (disk s (placeholder s p) \<noteq> None \<and> disk s (bare s p) = None)"
    and "(t = Dirty \<or> t = CleanLocal) = (disk s (bare s p) \<noteq> None \<and> disk s (placeholder s p) = None)"
    and "(t = ToDelete) = (disk s (bare s p) = None \<and> disk s (placeholder s p) = None)"
  shows "entry_ok s p i"
  using assms by (simp add: entry_ok_def tag_matches_def regular_presence Let_def)

lemma entry_okD:
  assumes "entry_ok s p i" and "state_store s (Some i) = Some t"
  shows "regular_or_absent (disk s (bare s p))" "regular_or_absent (disk s (placeholder s p))"
    "(t = Remote) = (disk s (placeholder s p) \<noteq> None \<and> disk s (bare s p) = None)"
    "(t = Dirty \<or> t = CleanLocal) = (disk s (bare s p) \<noteq> None \<and> disk s (placeholder s p) = None)"
    "(t = ToDelete) = (disk s (bare s p) = None \<and> disk s (placeholder s p) = None)"
  using assms by (auto simp: entry_ok_def tag_matches_def regular_presence Let_def)

lemma write_effect:
  assumes "write_data p bytes pos fh s = (Inr n, s')"
  shows "converter s' = converter s \<and> inode_store s' = inode_store s \<and>
    state_store s' = (state_store s)(inode_of (inode_store s) p := Some Dirty) \<and>
    (\<forall>q. map_option kind (disk s' q) = map_option kind (disk s q))"
  using assms
  by (auto simp: write_data_def monad_defs registry_defs ranker_defs store_defs os_defs Let_def
      put_handle_node_def handle_node_def
      split: option.splits if_splits target.splits)

lemma read_effect:
  assumes "read p sz pos fh s = (Inr r, s')"
  shows "converter s' = converter s \<and> inode_store s' = inode_store s \<and>
    state_store s' = state_store s \<and>
    (\<forall>q. map_option kind (disk s' q) = map_option kind (disk s q))"
  using assms
  by (auto simp: read_def monad_defs registry_defs ranker_defs store_defs os_defs Let_def
      put_handle_node_def handle_node_def
      split: option.splits if_splits target.splits)

lemma getattributes_effect:
  assumes "getattributes p s = (Inr r, s')"
  shows "converter s' = converter s \<and> inode_store s' = inode_store s \<and>
    state_store s' = state_store s \<and>
    (\<forall>q. map_option kind (disk s' q) = map_option kind (disk s q))"
  using assms
  by (auto simp: getattributes_def andthen_def get_path_or_dummy_eval is_dummy_def raise_def
      succeed_def file_read_def json_load_def get_stat_dictionary_def log_def existing_def
      Let_def split: option.splits if_splits sum.splits prod.splits)

lemma kinds_regular:
  "map_option kind x = map_option kind y \<Longrightarrow> regular_or_absent x = regular_or_absent y"
  by (cases x; cases y) (auto simp: regular_or_absent_def)

lemma kinds_present: "map_option kind x = map_option kind y \<Longrightarrow> (x = None) = (y = None)"
  by (cases x; cases y) auto

lemma consistent_trace [simp]: "consistent (s\<lparr>trace := t\<rparr>) = consistent s"
proof
  assume "consistent (s\<lparr>trace := t\<rparr>)"
  then show "consistent s" by (rule consistent_same_view) simp_all
next
  assume "consistent s"
  then show "consistent (s\<lparr>trace := t\<rparr>)" by (rule consistent_same_view) simp_all
qed

lemma consistent_log [simp]: "consistent (log e s) = consistent s"
  by (simp add: log_def)

lemma andthen_success:
  assumes "andthen m f s = (Inr r, s')"
  obtains x s1 where "m s = (Inr x, s1)" and "f x s1 = (Inr r, s')"
  using assms by (auto simp: andthen_def split: prod.splits sum.splits)

lemma PathLock_success:
  assumes "PathLock p a b c body s = (Inr r, s')"
  obtains s1 where "body (log (Lock_acquire p a b c) s) = (Inr r, s1)"
    and "s' = log (Lock_release p) s1"
  using assms by (auto simp: PathLock_def split: prod.splits)

lemma tag_of_entry:
  assumes "consistent s" and "tag_of s p = Some t"
  obtains i where "(p, i) \<in> set (paths (inode_store s))" and "state_store s (Some i) = Some t"
    and "inode_of (inode_store s) p = Some i"
  using assms by (auto simp: tag_of_def consistent_inode_of split: option.splits)

lemma paths_of_unique:
  assumes "distinct (map snd (paths r))" and "(p, i) \<in> set (paths r)"
  shows "paths_of r (Some i) = [p]"
proof -
  have "map fst (filter (\<lambda>(q, j). j = i) xs) = [p]"
    if "distinct (map snd xs)" "(p, i) \<in> set xs" for xs
    using that
  proof (induction xs)
    case Nil
    then show ?case by simp
  next
    case (Cons x xs)
    show ?case
    proof (cases "x = (p, i)")
      case True
      with Cons.prems(1) have "filter (\<lambda>(q, j). j = i) xs = []"
        by (auto simp: filter_empty_conv rev_image_eqI)
      with True show ?thesis by simp
    next
      case False
      with Cons.prems have "(p, i) \<in> set xs" by simp
      with Cons.prems(1) have "snd x \<noteq> i" by (auto simp: rev_image_eqI)
      with Cons \<open>(p, i) \<in> set xs\<close> show ?thesis by (cases x) auto
    qed
  qed
  from this [OF assms] show ?thesis
    by (simp add: paths_of_def)
qed

lemma paths_of_member:
  "p \<in> set (paths_of r (Some i)) \<Longrightarrow> (p, i) \<in> set (paths r)"
  by (auto simp: paths_of_def)

lemma write_keeps:
  assumes "consistent s" and "expected s (Write p bytes pos fh)"
    and "write_data p bytes pos fh s = (Inr n, s')"
  shows "consistent s'"
proof (cases "inode_of (inode_store s) p")
  case None
  with write_effect [OF assms(3)] assms(1) show ?thesis
    by (intro consistent_same_view [of s s']) auto
next
  case (Some i)
  with assms(2) obtain t where t: "tag_of s p = Some t" "t = CleanLocal \<or> t = Dirty"
    by auto
  from tag_of_entry [OF assms(1) t(1)] Some have m: "(p, i) \<in> set (paths (inode_store s))"
    and st: "state_store s (Some i) = Some t"
    by auto
  note e = consistent_entry [OF assms(1) m]
  note w = write_effect [OF assms(3)]
  from w have b: "bare s' p = bare s p" "placeholder s' p = placeholder s p"
    by (simp_all add: bare_def placeholder_def)
  from w have k: "map_option kind (disk s' q) = map_option kind (disk s q)" for q by simp
  have r: "regular_or_absent (disk s' q) = regular_or_absent (disk s q)" for q
    using k by (rule kinds_regular)
  have n: "(disk s' q = None) = (disk s q = None)" for q
    using k by (rule kinds_present)
  from entry_okD [OF e st] t(2) have old: "regular_or_absent (disk s (bare s p))"
    "regular_or_absent (disk s (placeholder s p))"
    "disk s (bare s p) \<noteq> None" "disk s (placeholder s p) = None"
    by auto
  from e have pl: "\<not> ends_with (dummy_ending (converter s)) p" "0 < i"
    "i < next_inode (inode_store s)"
    by (simp_all add: entry_ok_def)
  have "entry_ok s' p i"
    by (rule entry_okI [where t = Dirty]) (use w Some pl old in \<open>simp_all add: b r n\<close>)
  with assms(1) m w Some show ?thesis
    by (intro consistent_touch_one [of s p i s']) auto
qed

lemma read_keeps:
  assumes "consistent s" and "read p sz pos fh s = (Inr r, s')"
  shows "consistent s'"
  using read_effect [OF assms(2)] assms(1) by (intro consistent_same_view [of s s']) auto

lemma getattributes_keeps:
  assumes "consistent s" and "getattributes p s = (Inr r, s')"
  shows "consistent s'"
  using getattributes_effect [OF assms(2)] assms(1) by (intro consistent_same_view [of s s']) auto

lemma regular_cases:
  assumes "regular_or_absent x"
  obtains "x = None" | nd where "x = Some nd" and "kind nd = Regular"
  using assms by (cases x) (auto simp: regular_or_absent_def)

lemma hydrate_effect:
  assumes "consistent s" and "(p, i) \<in> set (paths (inode_store s))"
    and "state_store s (Some i) = Some t"
    and "replace_dummy_inner (Some i) s = (Inr u, s')"
  shows "converter s' = converter s \<and> inode_store s' = inode_store s \<and>
    state_store s' = (state_store s)(Some i := Some CleanLocal) \<and>
    (\<forall>q. q \<noteq> bare s p \<longrightarrow> q \<noteq> placeholder s p \<longrightarrow> disk s' q = disk s q) \<and>
    disk s' (placeholder s p) = None \<and>
    (\<exists>nd. disk s' (bare s p) = Some nd \<and> kind nd = Regular)"
proof -
  note e = consistent_entry [OF assms(1,2)]
  note d = entry_okD [OF e assms(3)]
  from assms(1,2) have ps: "paths_of (inode_store s) (Some i) = [p]"
    by (auto simp: consistent_def intro: paths_of_unique)
  from assms(1) have ne: "dummy_ending (converter s) \<noteq> []" by (simp add: consistent_def)
  from d(2) show ?thesis
  proof (cases rule: regular_cases)
    case 1
    with assms(4) ps show ?thesis
      by (simp add: replace_dummy_inner_def monad_defs converter_defs registry_defs store_defs
          os_defs placeholder_def)
  next
    case (2 nd)
    with d have b: "disk s (bare s p) = None" by (cases t) auto
    from assms(4) ps 2 b ne show ?thesis
      by (auto simp: replace_dummy_inner_def monad_defs converter_defs registry_defs store_defs
          ranker_defs os_defs placeholder_def bare_def write_at_def Let_def
          split: option.splits if_splits)
  qed
qed

lemma resident_forms:
  assumes "consistent s" and "(p, i) \<in> set (paths (inode_store s))"
    and "state_store s (Some i) = Some t" and "t = Dirty \<or> t = CleanLocal"
  obtains nd where "disk s (bare s p) = Some nd" and "kind nd = Regular"
    and "disk s (placeholder s p) = None"
proof -
  note d = entry_okD [OF consistent_entry [OF assms(1,2)] assms(3)]
  from d(4) assms(4) have "disk s (bare s p) \<noteq> None" "disk s (placeholder s p) = None"
    by auto
  with d(1) that show ?thesis by (auto elim: regular_cases)
qed

lemma hydrate_keeps:
  assumes "consistent s" and "(p, i) \<in> set (paths (inode_store s))"
    and "state_store s (Some i) = Some t"
    and "replace_dummy_inner (Some i) s = (Inr u, s')"
  shows "consistent s' \<and> converter s' = converter s \<and> inode_store s' = inode_store s \<and>
    state_store s' (Some i) = Some CleanLocal"
proof -
  note h = hydrate_effect [OF assms]
  from h have b: "bare s' p = bare s p" "placeholder s' p = placeholder s p"
    by (simp_all add: bare_def placeholder_def)
  from consistent_entry [OF assms(1,2)] have pl: "\<not> ends_with (dummy_ending (converter s)) p" "0 < i"
    "i < next_inode (inode_store s)"
    by (simp_all add: entry_ok_def)
  from h obtain nd where nd: "disk s' (bare s p) = Some nd" "kind nd = Regular"
    by blast
  have "entry_ok s' p i"
    by (rule entry_okI [where t = CleanLocal])
      (use h pl nd in \<open>simp_all add: b regular_or_absent_def\<close>)
  with assms(1,2) h have "consistent s'"
    by (intro consistent_touch_one [of s p i s']) auto
  with h show ?thesis by simp
qed

lemma get_path_keeps:
  assumes "consistent s" and "(p, i) \<in> set (paths (inode_store s))"
    and "state_store s (Some i) = Some t" and "t \<noteq> ToDelete"
    and "get_path p s = (Inr cp, s1)"
  shows "consistent s1 \<and> cp = bare s p \<and> converter s1 = converter s \<and>
    inode_store s1 = inode_store s \<and>
    (state_store s1 (Some i) = Some Dirty \<or> state_store s1 (Some i) = Some CleanLocal)"
proof -
  note d = entry_okD [OF consistent_entry [OF assms(1,2)] assms(3)]
  from assms(1,2) have io: "inode_of (inode_store s) p = Some i"
    by (simp add: consistent_inode_of)
  show ?thesis
  proof (cases "t = Remote")
    case True
    with d have "disk s (placeholder s p) \<noteq> None" by simp
    with d(2) have ex: "path_exists (disk s) (placeholder s p)"
      by (simp add: regular_presence)
    define s0 where "s0 = s\<lparr>trace := trace s @ [Os_path_exists (placeholder s p),
        Registry_get_inode p]\<rparr>"
    from assms(5) ex io obtain u where
      r: "replace_dummy_inner (Some i) s0 = (Inr u, s1)" and cp: "cp = bare s p"
      by (auto simp: get_path_def andthen_def succeed_def converter_defs os_path_exists_def
          get_inode_def log_def placeholder_def bare_def s0_def
          split: prod.splits sum.splits)
    have "consistent s0" using assms(1) by (simp add: s0_def)
    from hydrate_keeps [OF this _ _ r, of p t] assms(2,3) cp show ?thesis
      by (simp add: s0_def)
  next
    case False
    with assms(4) have t: "t = Dirty \<or> t = CleanLocal" by (cases t) auto
    with d have "disk s (placeholder s p) = None" by simp
    then have ex: "\<not> path_exists (disk s) (placeholder s p)" by simp
    with assms(5) have "s1 = s\<lparr>trace := trace s @ [Os_path_exists (placeholder s p)]\<rparr>"
      and "cp = bare s p"
      by (auto simp: get_path_def andthen_def succeed_def converter_defs os_path_exists_def
          log_def placeholder_def bare_def)
    with assms(1,3) t show ?thesis by auto
  qed
qed

lemma os_open_present:
  assumes "disk s q = Some nd" and "kind nd = Regular"
    and "os_open q flags mode s = (Inr fd, s')"
  shows "converter s' = converter s \<and> inode_store s' = inode_store s \<and>
    state_store s' = state_store s \<and>
    (\<forall>q'. map_option kind (disk s' q') = map_option kind (disk s q'))"
  using assms
  by (auto simp: os_defs log_def Let_def split: if_splits)

lemma open_keeps:
  assumes "consistent s" and "expected s (Open p flags)" and "open_file p flags s = (Inr fd, s')"
  shows "consistent s'"
proof -
  from assms(2) obtain t where t: "tag_of s p = Some t" "t \<noteq> ToDelete" by auto
  from tag_of_entry [OF assms(1) t(1)] obtain i where
    m: "(p, i) \<in> set (paths (inode_store s))" and st: "state_store s (Some i) = Some t"
    by blast
  define s0 where "s0 = log (Lock_acquire p None (Some True) (Some 100)) s"
  from assms(3) obtain cp s1 s2 where g: "get_path p s0 = (Inr cp, s1)"
    and o: "os_open cp flags 511 s1 = (Inr fd, s2)" and s': "s' = log (Lock_release p) s2"
    unfolding open_file_def s0_def by (auto elim!: PathLock_success andthen_success)
  have i0: "consistent s0" "(p, i) \<in> set (paths (inode_store s0))" "state_store s0 (Some i) = Some t"
    using assms(1) m st by (simp_all add: s0_def log_def)
  note k = get_path_keeps [OF i0 t(2) g]
  from k m i0 have m1: "(p, i) \<in> set (paths (inode_store s1))" by simp
  from k obtain t1 where t1: "state_store s1 (Some i) = Some t1" "t1 = Dirty \<or> t1 = CleanLocal"
    by auto
  from k have cp: "cp = bare s1 p" by (simp add: bare_def s0_def log_def)
  from resident_forms [OF _ m1 t1] k obtain nd where
    nd: "disk s1 (bare s1 p) = Some nd" "kind nd = Regular"
    by blast
  from os_open_present [OF nd o [unfolded cp]] k have "consistent s2"
    by (intro consistent_same_view [of s1 s2]) auto
  with s' show ?thesis by simp
qed

lemma consistent_set_dirty:
  assumes "consistent s" and "(p, i) \<in> set (paths (inode_store s))"
    and "state_store s (Some i) = Some t" and "t = Dirty \<or> t = CleanLocal"
  shows "consistent (s\<lparr>state_store := (state_store s)(Some i := Some Dirty)\<rparr>)"
proof -
  let ?s = "s\<lparr>state_store := (state_store s)(Some i := Some Dirty)\<rparr>"
  note e = consistent_entry [OF assms(1,2)]
  from e have pl: "\<not> ends_with (dummy_ending (converter s)) p" "0 < i"
    "i < next_inode (inode_store s)"
    by (simp_all add: entry_ok_def)
  from entry_okD [OF e assms(3)] assms(4) have old: "regular_or_absent (disk s (bare s p))"
    "regular_or_absent (disk s (placeholder s p))"
    "disk s (bare s p) \<noteq> None" "disk s (placeholder s p) = None"
    by auto
  have "entry_ok ?s p i"
    by (rule entry_okI [where t = Dirty]) (use pl old in simp_all)
  with assms(1,2) show ?thesis
    by (intro consistent_touch_one [of s p i ?s]) auto
qed

lemma file_truncate_present:
  assumes "disk s q = Some nd" and "kind nd = Regular"
    and "file_truncate q len s = (Inr n, s')"
  shows "converter s' = converter s \<and> inode_store s' = inode_store s \<and>
    state_store s' = state_store s \<and>
    (\<forall>q'. map_option kind (disk s' q') = map_option kind (disk s q'))"
  using assms
  by (auto simp: os_defs log_def Let_def split: if_splits)

lemma truncate_keeps:
  assumes "consistent s" and "expected s (Truncate p len)" and "truncate p len s = (Inr n, s')"
  shows "consistent s'"
proof -
  from assms(2) obtain t where t: "tag_of s p = Some t" "t \<noteq> ToDelete" by auto
  from tag_of_entry [OF assms(1) t(1)] obtain i where
    m: "(p, i) \<in> set (paths (inode_store s))" and st: "state_store s (Some i) = Some t"
    and io: "inode_of (inode_store s) p = Some i"
    by blast
  define s0 where "s0 = s\<lparr>trace := trace s @ [Lock_acquire p None (Some True) (Some 100),
      Registry_get_inode p]\<rparr>"
  from assms(3) io obtain cp s1 s4 where g: "get_path p s0 = (Inr cp, s1)"
    and f: "file_truncate cp len
       (log (Ranker_access (Some i))
          (log (Store_set_dirty (Some i))
             (s1\<lparr>state_store := (state_store s1)(Some i := Some Dirty)\<rparr>))) = (Inr n, s4)"
    and s': "s' = log (Lock_release p) s4"
    unfolding truncate_def s0_def
    by (auto elim!: PathLock_success andthen_success
        simp: get_inode_def log_def store_defs handle_inode_access_def)
  have i0: "consistent s0" "(p, i) \<in> set (paths (inode_store s0))" "state_store s0 (Some i) = Some t"
    using assms(1) m st by (simp_all add: s0_def)
  note k = get_path_keeps [OF i0 t(2) g]
  from k m i0 have m1: "(p, i) \<in> set (paths (inode_store s1))" by simp
  from k obtain t1 where t1: "state_store s1 (Some i) = Some t1" "t1 = Dirty \<or> t1 = CleanLocal"
    by auto
  define s2 where "s2 = s1\<lparr>state_store := (state_store s1)(Some i := Some Dirty)\<rparr>"
  from k have i2: "consistent s2" unfolding s2_def by (intro consistent_set_dirty [OF _ m1 t1]) simp
  define s3 where "s3 = log (Ranker_access (Some i)) (log (Store_set_dirty (Some i)) s2)"
  from i2 have i3: "consistent s3" by (simp add: s3_def)
  from k have cp: "cp = bare s3 p" by (simp add: bare_def s0_def s3_def s2_def log_def)
  have m3: "(p, i) \<in> set (paths (inode_store s3))" "state_store s3 (Some i) = Some Dirty"
    using m1 by (simp_all add: s3_def s2_def log_def)
  from resident_forms [OF i3 m3] obtain nd where
    nd: "disk s3 (bare s3 p) = Some nd" "kind nd = Regular"
    by blast
  from f have "file_truncate (bare s3 p) len s3 = (Inr n, s4)"
    by (simp add: cp s3_def s2_def)
  from file_truncate_present [OF nd this] i3 have "consistent s4"
    by (intro consistent_same_view [of s3 s4]) auto
  with s' show ?thesis by simp
qed

lemma paths_of_None [simp]: "paths_of r None = []"
  by (simp add: paths_of_def filter_empty_conv)

lemma first_item_success:
  assumes "first_item xs s = (Inr x, s')"
  shows "x \<in> set xs \<and> s' = s"
  using assms by (cases xs) (auto simp: first_item_def raise_def succeed_def)

lemma replace_dummy_keeps:
  assumes "consistent s" and "expected s (Replace_dummy inode)"
    and "replace_dummy inode s = (Inr u, s')"
  shows "consistent s'"
proof -
  from assms(2) obtain t where t: "state_store s inode = Some t" by auto
  define s0 where "s0 = log (Registry_get_paths inode) s"
  from assms(3) obtain p s1 where p: "p \<in> set (paths_of (inode_store s) inode)"
    and r: "replace_dummy_inner inode (log (Lock_acquire p None None None) s0) = (Inr u, s1)"
    and s': "s' = log (Lock_release p) s1"
    unfolding replace_dummy_def s0_def
    by (auto elim!: PathLock_success andthen_success dest!: first_item_success
        simp: get_paths_def)
  from p obtain i where i: "inode = Some i" by (cases inode) auto
  with p have m: "(p, i) \<in> set (paths (inode_store s))" by (auto dest: paths_of_member)
  have "consistent (log (Lock_acquire p None None None) s0)" using assms(1) by (simp add: s0_def)
  from hydrate_keeps [OF this _ _ r [unfolded i], of p t] m t i have "consistent s1"
    by (simp add: s0_def log_def)
  with s' show ?thesis by simp
qed

lemma create_dummy_keeps:
  assumes "consistent s" and "create_dummy inode s = (Inr u, s')"
  shows "consistent s'"
proof -
  define s0 where "s0 = log (Registry_get_paths inode) s"
  from assms(2) obtain p where p: "p \<in> set (paths_of (inode_store s) inode)"
    by (cases "paths_of (inode_store s) inode")
       (auto simp: create_dummy_def andthen_def get_paths_def first_item_def raise_def)
  from p obtain i where i: "inode = Some i" by (cases inode) auto
  with p have m: "(p, i) \<in> set (paths (inode_store s))" by (auto dest: paths_of_member)
  from assms(1) m have ps: "paths_of (inode_store s) (Some i) = [p]"
    by (auto simp: consistent_def intro: paths_of_unique)
  note e = consistent_entry [OF assms(1) m]
  from e have pl: "\<not> ends_with (dummy_ending (converter s)) p" "0 < i"
    "i < next_inode (inode_store s)"
    by (simp_all add: entry_ok_def)
  from assms(1) have ne: "dummy_ending (converter s) \<noteq> []" by (simp add: consistent_def)
  show ?thesis
  proof (cases "state_store s (Some i) = Some CleanLocal")
    case False
    with assms(2) ps i have "s' = s\<lparr>trace := trace s' \<rparr>"
      by (auto simp: create_dummy_def monad_defs get_paths_def first_item_def is_clean_def)
    with assms(1) show ?thesis by (metis consistent_trace)
  next
    case True
    from resident_forms [OF assms(1) m True] obtain nd where
      nd: "disk s (bare s p) = Some nd" "kind nd = Regular" "disk s (placeholder s p) = None"
      by blast
    from assms(2) ps i True nd ne have eff: "converter s' = converter s \<and>
      inode_store s' = inode_store s \<and>
      state_store s' = (state_store s)(Some i := Some Remote) \<and>
      (\<forall>q. q \<noteq> bare s p \<longrightarrow> q \<noteq> placeholder s p \<longrightarrow> disk s' q = disk s q) \<and>
      disk s' (bare s p) = None \<and>
      (\<exists>nd'. disk s' (placeholder s p) = Some nd' \<and> kind nd' = Regular)"
      by (auto simp: create_dummy_def monad_defs converter_defs get_paths_def first_item_def
          store_defs os_defs bare_def placeholder_def Let_def)
    then have b: "bare s' p = bare s p" "placeholder s' p = placeholder s p"
      by (simp_all add: bare_def placeholder_def)
    from eff obtain nd' where nd': "disk s' (placeholder s p) = Some nd'" "kind nd' = Regular"
      by blast
    have "entry_ok s' p i"
      by (rule entry_okI [where t = Remote])
        (use eff pl nd' in \<open>simp_all add: b regular_or_absent_def\<close>)
    with assms(1) m eff show ?thesis
      by (intro consistent_touch_one [of s p i s']) auto
  qed
qed

lemma entry_apart:
  assumes "consistent s" and "(q, j) \<in> set (paths (inode_store s))" and "q \<noteq> p0"
    and "\<not> ends_with (dummy_ending (converter s)) p0"
    and "converter s' = converter s"
    and "next_inode (inode_store s) \<le> next_inode (inode_store s')"
    and "state_store s' (Some j) = state_store s (Some j)"
    and "\<forall>x. x \<noteq> bare s p0 \<longrightarrow> x \<noteq> placeholder s p0 \<longrightarrow>
           map_option kind (disk s' x) = map_option kind (disk s x)"
  shows "entry_ok s' q j"
proof -
  note e = consistent_entry [OF assms(1,2)]
  from assms(1) have ne: "dummy_ending (converter s) \<noteq> []" by (simp add: consistent_def)
  from e have pl: "\<not> ends_with (dummy_ending (converter s)) q" by (simp add: entry_ok_def)
  from forms_apart [OF ne pl assms(4,3)] e assms(5,6,7,8) show ?thesis
    by (intro entry_frame [of s q j s']) auto
qed

lemma entry_untagged:
  assumes "\<not> ends_with (dummy_ending (converter s)) p" and "0 < i"
    and "i < next_inode (inode_store s)" and "state_store s (Some i) = None"
  shows "entry_ok s p i"
  using assms by (simp add: entry_ok_def)

lemma unregistered: "inode_of r p = None \<longleftrightarrow> p \<notin> fst ` set (paths r)"
  by (simp add: inode_of_def map_of_eq_None_iff)

lemma consistent_bound: "consistent s \<Longrightarrow> (q, j) \<in> set (paths (inode_store s)) \<Longrightarrow> j < next_inode (inode_store s)"
  by (auto simp: consistent_def entry_ok_def)

lemma fresh_inode: "consistent s \<Longrightarrow> next_inode (inode_store s) \<notin> snd ` set (paths (inode_store s))"
  by (auto dest: consistent_bound)

lemma create_keeps:
  assumes "consistent s" and "expected s (Create p mode)" and "create p mode s = (Inr fd, s')"
  shows "consistent s'"
proof -
  define n where "n = next_inode (inode_store s)"
  from assms(2) have g: "\<not> ends_with (dummy_ending (converter s)) p"
    "inode_of (inode_store s) p = None" "disk s (bare s p) = None"
    "disk s (placeholder s p) = None"
    by (simp_all add: plain_def)
  from assms(1) have ne: "dummy_ending (converter s) \<noteq> []" and n0: "0 < n"
    by (simp_all add: consistent_def n_def)
  from g(2) have un: "map_of (paths (inode_store s)) p = None" by (simp add: inode_of_def)
  from assms(3) g(3) un have eff: "converter s' = converter s"
    "inode_store s' = \<lparr>paths = paths (inode_store s) @ [(p, n)], next_inode = Suc n\<rparr>"
    "state_store s' = (state_store s)(Some n := Some Dirty)"
    "\<forall>x. x \<noteq> bare s p \<longrightarrow> disk s' x = disk s x"
    "\<exists>nd. disk s' (bare s p) = Some nd \<and> kind nd = Regular"
    by (auto simp: create_def monad_defs converter_defs registry_defs store_defs ranker_defs
        os_defs bare_def n_def Let_def inode_of_def wants_write_def map_add_def)
  from eff(1) have b: "bare s' = bare s" "placeholder s' = placeholder s"
    by (simp_all add: bare_def placeholder_def fun_eq_iff)
  from eff(5) obtain nd where nd: "disk s' (bare s p) = Some nd" "kind nd = Regular" by blast
  from eff(4) g(4) ne have ph: "disk s' (placeholder s p) = None"
    by (simp add: bare_not_placeholder [symmetric])
  have new: "entry_ok s' p n"
    by (rule entry_okI [where t = Dirty])
      (use eff g n0 nd ph in \<open>simp_all add: b regular_or_absent_def\<close>)
  have old: "entry_ok s' q j" if m: "(q, j) \<in> set (paths (inode_store s))" for q j
  proof (rule entry_apart [OF assms(1) m _ g(1)])
    from m g(2) show "q \<noteq> p" by (auto simp: unregistered rev_image_eqI)
    from consistent_bound [OF assms(1) m] show "state_store s' (Some j) = state_store s (Some j)"
      by (simp add: eff n_def)
  qed (use eff in \<open>simp_all add: n_def\<close>)
  from assms(1) g(2) fresh_inode [OF assms(1)] show ?thesis
    by (auto simp: consistent_def eff [unfolded n_def] ne new [unfolded n_def] old unregistered)
qed

lemma mkdir_keeps:
  assumes "consistent s" and "expected s (Mkdir p mode)" and "mkdir p mode s = (Inr u, s')"
  shows "consistent s'"
proof -
  define n where "n = next_inode (inode_store s)"
  from assms(2) have g: "\<not> ends_with (dummy_ending (converter s)) p"
    "inode_of (inode_store s) p = None" "state_store s (Some n) = None"
    by (simp_all add: plain_def n_def)
  from assms(1) have ne: "dummy_ending (converter s) \<noteq> []" and n0: "0 < n"
    by (simp_all add: consistent_def n_def)
  from g(2) have un: "map_of (paths (inode_store s)) p = None" by (simp add: inode_of_def)
  from assms(3) un have eff: "converter s' = converter s"
    "inode_store s' = \<lparr>paths = paths (inode_store s) @ [(p, n)], next_inode = Suc n\<rparr>"
    "state_store s' = state_store s"
    "\<forall>x. x \<noteq> bare s p \<longrightarrow> disk s' x = disk s x"
    by (auto simp: mkdir_def monad_defs converter_defs registry_defs os_defs bare_def n_def
        Let_def split: option.splits)
  have new: "entry_ok s' p n"
    by (rule entry_untagged) (use eff g n0 in simp_all)
  have old: "entry_ok s' q j" if m: "(q, j) \<in> set (paths (inode_store s))" for q j
  proof (rule entry_apart [OF assms(1) m _ g(1)])
    from m g(2) show "q \<noteq> p" by (auto simp: unregistered rev_image_eqI)
  qed (use eff in \<open>simp_all add: n_def\<close>)
  from assms(1) g(2) fresh_inode [OF assms(1)] show ?thesis
    by (auto simp: consistent_def eff [unfolded n_def] ne new [unfolded n_def] old unregistered)
qed

lemma consistent_filtered:
  assumes "consistent s" and "converter s' = converter s"
    and "inode_store s' = (inode_store s)\<lparr>paths := filter (\<lambda>(q, j). q \<noteq> p) (paths (inode_store s))\<rparr>"
    and "\<And>q j. (q, j) \<in> set (paths (inode_store s)) \<Longrightarrow> q \<noteq> p \<Longrightarrow> entry_ok s' q j"
  shows "consistent s'"
  using assms by (auto simp: consistent_def distinct_map_filter)

lemma rmdir_keeps:
  assumes "consistent s" and "rmdir p s = (Inr u, s')"
  shows "consistent s'"
proof -
  from assms(2) obtain nd where eff: "disk s (bare s p) = Some nd" "kind nd = Directory"
    "converter s' = converter s"
    "inode_store s' = (inode_store s)\<lparr>paths := filter (\<lambda>(q, j). q \<noteq> p) (paths (inode_store s))\<rparr>"
    "state_store s' = state_store s"
    "\<forall>x. x \<noteq> bare s p \<longrightarrow> disk s' x = disk s x"
    by (auto simp: rmdir_def monad_defs converter_defs registry_defs os_defs bare_def Let_def
        split: option.splits if_splits)
  show ?thesis
  proof (rule consistent_filtered [OF assms(1) eff(3,4)])
    fix q j
    assume m: "(q, j) \<in> set (paths (inode_store s))" and "q \<noteq> p"
    note e = consistent_entry [OF assms(1) m]
    show "entry_ok s' q j"
    proof (cases "state_store s (Some j)")
      case None
      with e eff show ?thesis by (intro entry_untagged) (simp_all add: entry_ok_def)
    next
      case (Some t)
      from entry_okD(1,2) [OF e Some] eff(1,2) have "bare s q \<noteq> bare s p"
        "placeholder s q \<noteq> bare s p"
        by (auto simp: regular_or_absent_def)
      with e eff show ?thesis by (intro entry_frame [of s q j s']) simp_all
    qed
  qed
qed

lemma form_of_cases:
  assumes "form_of s p = Some cp"
  shows "cp = bare s p \<or> cp = placeholder s p"
  using assms by (auto simp: form_of_def split: if_splits)

lemma delete_file_effect:
  assumes "delete_file p s = (Inr u, s')"
  obtains cp nd where "form_of s p = Some cp" and "disk s cp = Some nd"
    and "converter s' = converter s"
    and "inode_store s' = (inode_store s)\<lparr>paths := filter (\<lambda>(q, j). q \<noteq> p) (paths (inode_store s))\<rparr>"
    and "state_store s' = (state_store s)(inode_of (inode_store s) p := Some ToDelete)"
    and "disk s' = (disk s)(cp := None)"
  using assms
  by (auto simp: delete_file_def andthen_def get_path_or_dummy_eval registry_defs ranker_defs
      store_defs os_unlink_def log_def Let_def split: option.splits if_splits)

lemma other_inode:
  assumes "consistent s" and "(q, j) \<in> set (paths (inode_store s))" and "q \<noteq> p"
  shows "inode_of (inode_store s) p \<noteq> Some j"
proof
  assume "inode_of (inode_store s) p = Some j"
  with assms(1) have "(p, j) \<in> set (paths (inode_store s))" by (simp add: consistent_inode_of)
  with assms show False by (auto simp: consistent_def dest: distinct_snd_unique)
qed

lemma delete_file_keeps:
  assumes "consistent s" and "\<not> ends_with (dummy_ending (converter s)) p"
    and "delete_file p s = (Inr u, s')"
  shows "consistent s'"
proof -
  from assms(3) obtain cp nd where eff: "form_of s p = Some cp" "disk s cp = Some nd"
    "converter s' = converter s"
    "inode_store s' = (inode_store s)\<lparr>paths := filter (\<lambda>(q, j). q \<noteq> p) (paths (inode_store s))\<rparr>"
    "state_store s' = (state_store s)(inode_of (inode_store s) p := Some ToDelete)"
    "disk s' = (disk s)(cp := None)"
    by (rule delete_file_effect)
  note c = form_of_cases [OF eff(1)]
  show ?thesis
  proof (rule consistent_filtered [OF assms(1) eff(3,4)])
    fix q j
    assume m: "(q, j) \<in> set (paths (inode_store s))" and q: "q \<noteq> p"
    show "entry_ok s' q j"
    proof (rule entry_apart [OF assms(1) m q assms(2)])
      from other_inode [OF assms(1) m q]
      show "state_store s' (Some j) = state_store s (Some j)" by (auto simp: eff)
      from c show "\<forall>x. x \<noteq> bare s p \<longrightarrow> x \<noteq> placeholder s p \<longrightarrow>
           map_option kind (disk s' x) = map_option kind (disk s x)"
        by (auto simp: eff)
    qed (simp_all add: eff)
  qed
qed

lemma unlink_keeps:
  assumes "consistent s" and "expected s (Unlink p)" and "unlink p s = (Inr u, s')"
  shows "consistent s'"
proof -
  from assms(2) have pl: "\<not> ends_with (dummy_ending (converter s)) p" by (simp add: plain_def)
  define s0 where "s0 = s\<lparr>trace := trace s @
      (if path_exists (disk s) (bare s p) then [Os_path_exists (bare s p)]
       else [Os_path_exists (bare s p), Os_path_exists (placeholder s p)]) @
      [Os_path_islink (form_of s p)]\<rparr>"
  have i0: "consistent s0" using assms(1) by (simp add: s0_def)
  from assms(3) obtain cp where cp: "form_of s p = Some cp"
    by (cases "form_of s p")
       (auto simp: unlink_def andthen_def get_path_or_dummy_eval is_link_def
        os_path_islink_def)
  note c = form_of_cases [OF cp]
  show ?thesis
  proof (cases "case disk s cp of None \<Rightarrow> False | Some nd \<Rightarrow> kind nd = Symlink")
    case True
    then obtain nd where nd: "disk s cp = Some nd" "kind nd = Symlink"
      by (auto split: option.splits)
    from assms(3) cp nd have eff: "converter s' = converter s" "inode_store s' = inode_store s"
      "state_store s' = state_store s" "disk s' = (disk s)(cp := None)"
      by (auto simp: unlink_def andthen_def get_path_or_dummy_eval is_link_def
          os_path_islink_def os_unlink_def log_def Let_def split: if_splits)
    have "entry_ok s' q j" if m: "(q, j) \<in> set (paths (inode_store s))" for q j
    proof (cases "q = p")
      case False
      show ?thesis
      proof (rule entry_apart [OF assms(1) m False pl])
        from c show "\<forall>x. x \<noteq> bare s p \<longrightarrow> x \<noteq> placeholder s p \<longrightarrow>
           map_option kind (disk s' x) = map_option kind (disk s x)"
          by (auto simp: eff)
      qed (simp_all add: eff)
    next
      case q: True
      note e = consistent_entry [OF assms(1) m]
      show ?thesis
      proof (cases "state_store s (Some j)")
        case None
        with e eff show ?thesis by (intro entry_untagged) (simp_all add: entry_ok_def)
      next
        case (Some t)
        from entry_okD(1,2) [OF e Some] c nd q show ?thesis
          by (auto simp: regular_or_absent_def)
      qed
    qed
    with assms(1) eff show ?thesis by (auto simp: consistent_def)
  next
    case False
    with assms(3) cp obtain s1 where "delete_file p (log (Lock_acquire p None (Some True) (Some 10)) s0) = (Inr u, s1)"
      and s': "s' = log (Lock_release p) s1"
      by (auto simp: unlink_def andthen_def get_path_or_dummy_eval is_link_def
          os_path_islink_def s0_def log_def elim!: PathLock_success
          split: option.splits if_splits)
    from delete_file_keeps [OF _ _ this(1)] i0 pl have "consistent s1"
      by (simp add: s0_def log_def)
    with s' show ?thesis by simp
  qed
qed

lemma rename_tail_keeps:
  assumes "consistent s" and "(old, i) \<in> set (paths (inode_store s))"
    and "state_store s (Some i) = Some t" and "t = Dirty \<or> t = CleanLocal"
    and "\<not> ends_with (dummy_ending (converter s)) new"
    and "inode_of (inode_store s) new = None"
    and "disk s (placeholder s new) = None"
    and "andthen (to_cache_path old) (\<lambda>a. andthen (to_cache_path new) (\<lambda>b.
           andthen (os_rename a b) (\<lambda>_. rename_paths old new))) s = (Inr u, s')"
  shows "consistent s'"
proof -
  let ?ps = "paths (inode_store s)"
  from resident_forms [OF assms(1,2,3,4)] obtain nd where
    nd: "disk s (bare s old) = Some nd" "kind nd = Regular" "disk s (placeholder s old) = None"
    by blast
  from assms(6) have new: "new \<notin> fst ` set ?ps" by (simp add: unregistered)
  with assms(2) have on: "old \<noteq> new" by (auto simp: rev_image_eqI)
  then have bb: "bare s old \<noteq> bare s new" by (simp add: bare_def)
  from assms(1,2) have io: "map_of ?ps old = Some i"
    by (simp add: consistent_def)
  from new have fl: "filter (\<lambda>(p, i). p = old \<or> p \<noteq> new) ?ps = ?ps"
    by (auto simp: filter_id_conv rev_image_eqI)
  from assms(8) nd bb io on have eff: "converter s' = converter s"
    "inode_store s' = (inode_store s)\<lparr>paths := map (rekey old new) ?ps\<rparr>"
    "state_store s' = state_store s"
    "\<forall>x. x \<noteq> bare s old \<longrightarrow> x \<noteq> bare s new \<longrightarrow> disk s' x = disk s x"
    "disk s' (bare s old) = None" "disk s' (bare s new) = Some nd"
    by (auto simp: monad_defs converter_defs registry_defs os_defs bare_def Let_def fl
        rekey_def split: option.splits if_splits)
  from assms(1) have ne: "dummy_ending (converter s) \<noteq> []" by (simp add: consistent_def)
  note e = consistent_entry [OF assms(1,2)]
  from e have pl: "\<not> ends_with (dummy_ending (converter s)) old" "0 < i"
    "i < next_inode (inode_store s)"
    by (simp_all add: entry_ok_def)
  from eff(1) have b: "bare s' = bare s" "placeholder s' = placeholder s"
    by (simp_all add: bare_def placeholder_def fun_eq_iff)
  from forms_apart [OF ne assms(5) pl(1)] on have ap: "placeholder s new \<noteq> bare s old"
    by auto
  have ph: "disk s' (placeholder s new) = None"
    using eff(4) assms(7) ap bare_not_placeholder [OF ne, of new] by (simp add: eq_commute)
  have moved: "entry_ok s' new i"
    by (rule entry_okI [where t = t])
      (use eff assms(3,4,5) pl nd ph in \<open>auto simp: b regular_or_absent_def\<close>)
  have other: "entry_ok s' q j" if m: "(q, j) \<in> set ?ps" and q: "q \<noteq> old" for q j
  proof -
    note eq = consistent_entry [OF assms(1) m]
    from eq have plq: "\<not> ends_with (dummy_ending (converter s)) q" by (simp add: entry_ok_def)
    from m new have qn: "q \<noteq> new" by (auto simp: rev_image_eqI)
    from forms_apart [OF ne plq pl(1) q] forms_apart [OF ne plq assms(5) qn] eq eff
    show ?thesis by (intro entry_frame [of s q j s']) auto
  qed
  have ents: "entry_ok s' q j" if "(q, j) \<in> set (map (rekey old new) ?ps)" for q j
  proof -
    from that obtain q0 where q0: "(q0, j) \<in> set ?ps" "(q, j) = rekey old new (q0, j)"
      by (auto simp: rekey_def split: if_splits)
    show ?thesis
    proof (cases "q0 = old")
      case True
      with q0 assms(1,2) have "j = i" by (auto simp: consistent_def dest: distinct_fst_unique)
      with True q0 moved show ?thesis by (simp add: rekey_def)
    next
      case False
      with q0 other show ?thesis by (simp add: rekey_def)
    qed
  qed
  let ?g = "\<lambda>p. if p = old then new else p"
  have mf: "map fst (map (rekey old new) ?ps) = map ?g (map fst ?ps)"
    by (auto simp: rekey_def)
  have "inj_on ?g (set (map fst ?ps))"
    using new by (auto simp: inj_on_def)
  moreover from assms(1) have "distinct (map fst ?ps)" by (simp add: consistent_def)
  ultimately have "distinct (map ?g (map fst ?ps))"
    using distinct_map [of ?g "map fst ?ps"] by blast
  then have d1: "distinct (map fst (map (rekey old new) ?ps))" by (simp only: mf)
  have ms: "map snd (map (rekey old new) ?ps) = map snd ?ps"
    by (auto simp: rekey_def)
  from assms(1) have "distinct (map snd ?ps)" by (simp add: consistent_def)
  then have d2: "distinct (map snd (map (rekey old new) ?ps))" by (simp only: ms)
  from eff(2) have p': "paths (inode_store s') = map (rekey old new) ?ps"
    and n': "next_inode (inode_store s') = next_inode (inode_store s)"
    by simp_all
  from ents have "\<forall>(q, j) \<in> set (paths (inode_store s')). entry_ok s' q j"
    unfolding p' by blast
  moreover from d1 d2 have "distinct (map fst (paths (inode_store s')))"
    "distinct (map snd (paths (inode_store s')))"
    unfolding p' by blast+
  ultimately show ?thesis
    using assms(1) by (simp add: consistent_def eff(1) n')
qed

lemma rename_keeps:
  assumes "consistent s" and "expected s (Rename old new)" and "rename old new s = (Inr u, s')"
  shows "consistent s'"
proof -
  from assms(2) obtain t where t: "tag_of s old = Some t" "t = Dirty \<or> t = CleanLocal"
    and pl: "\<not> ends_with (dummy_ending (converter s)) new"
    and dst: "if inode_of (inode_store s) new = None
       then disk s (placeholder s new) = None else tag_of s new \<noteq> None"
    by (auto simp: plain_def)
  from tag_of_entry [OF assms(1) t(1)] obtain i where
    m: "(old, i) \<in> set (paths (inode_store s))" and st: "state_store s (Some i) = Some t"
    by blast
  define tail where "tail = andthen (to_cache_path old) (\<lambda>a. andthen (to_cache_path new)
      (\<lambda>b. andthen (os_rename a b) (\<lambda>_. rename_paths old new)))"
  define s0 where "s0 = s\<lparr>trace := trace s @ [Lock_acquire old None (Some True) (Some 100),
      Registry_get_inode new]\<rparr>"
  have i0: "consistent s0" using assms(1) by (simp add: s0_def)
  show ?thesis
  proof (cases "inode_of (inode_store s) new")
    case None
    with assms(3) obtain s1 where tl: "tail s0 = (Inr u, s1)"
      and s': "s' = log (Lock_release old) s1"
      unfolding rename_def tail_def s0_def
      by (auto elim!: PathLock_success
          simp: andthen_def get_inode_def log_def truthy_def succeed_def)
    from None dst have "disk s (placeholder s new) = None" by simp
    with rename_tail_keeps [OF i0 _ _ t(2) _ _ _ tl [unfolded tail_def], of i] m st pl None
    have "consistent s1" by (simp add: s0_def)
    with s' show ?thesis by simp
  next
    case (Some j)
    with assms(1) have mj: "(new, j) \<in> set (paths (inode_store s))"
      by (simp add: consistent_inode_of)
    from Some dst obtain tj where tj: "state_store s (Some j) = Some tj"
      by (auto simp: tag_of_def)
    note ej = consistent_entry [OF assms(1) mj]
    from ej have j0: "0 < j" by (simp add: entry_ok_def)
    define s0b where "s0b = s\<lparr>trace := trace s @ [Lock_acquire old None (Some True) (Some 100),
      Registry_get_inode new, Store_exists (Some j),
      Lock_acquire new None (Some True) (Some 100)]\<rparr>"
    from assms(3) Some tj j0 obtain s1 s2 v where df: "delete_file new s0b = (Inr v, s1)"
      and tl: "tail (log (Lock_release new) s1) = (Inr u, s2)"
      and s': "s' = log (Lock_release old) s2"
      unfolding rename_def tail_def s0b_def
      by (auto elim!: PathLock_success
          simp: andthen_def get_inode_def log_def truthy_def succeed_def exists_def
          split: prod.splits sum.splits)
    have i0b: "consistent s0b" using assms(1) by (simp add: s0b_def)
    from df obtain cp nd where eff: "form_of s0b new = Some cp" "disk s0b cp = Some nd"
      "converter s1 = converter s0b"
      "inode_store s1 = (inode_store s0b)\<lparr>paths :=
         filter (\<lambda>(q, j). q \<noteq> new) (paths (inode_store s0b))\<rparr>"
      "state_store s1 = (state_store s0b)(inode_of (inode_store s0b) new := Some ToDelete)"
      "disk s1 = (disk s0b)(cp := None)"
      by (rule delete_file_effect)
    from delete_file_keeps [OF i0b _ df] pl have i1: "consistent s1" by (simp add: s0b_def)
    note dj = entry_okD [OF ej tj]
    from eff(1) dj have cp: "cp = (if tj = Remote then placeholder s new else bare s new)"
      "tj \<noteq> ToDelete"
      by (auto simp: form_of_def s0b_def regular_presence split: if_splits)
    from cp dj have ph1: "disk s1 (placeholder s new) = None"
      by (cases tj) (auto simp: eff s0b_def)
    have on: "old \<noteq> new"
    proof
      assume eq: "old = new"
      with m mj assms(1) have "j = i" by (auto simp: consistent_def dest: distinct_fst_unique)
      with st tj t(2) cp dj eq have "disk s1 (bare s old) = None"
        by (auto simp: eff s0b_def)
      with tl eq show False
        by (auto simp: tail_def andthen_def to_cache_path_def os_rename_def log_def Let_def
            bare_def eff s0b_def)
    qed
    from other_inode [OF assms(1) m on] Some have ij: "i \<noteq> j" by auto
    define s1r where "s1r = log (Lock_release new) s1"
    have "consistent s1r" using i1 by (simp add: s1r_def)
    moreover have "(old, i) \<in> set (paths (inode_store s1r))"
      using m on by (simp add: s1r_def log_def eff s0b_def)
    moreover have "state_store s1r (Some i) = Some t"
      using st ij Some by (simp add: s1r_def log_def eff s0b_def)
    moreover note t(2)
    moreover have "\<not> ends_with (dummy_ending (converter s1r)) new"
      using pl by (simp add: s1r_def log_def eff s0b_def)
    moreover have "inode_of (inode_store s1r) new = None"
      by (auto simp: s1r_def log_def eff s0b_def unregistered)
    moreover have "disk s1r (placeholder s1r new) = None"
      using ph1 by (simp add: s1r_def log_def placeholder_def eff s0b_def)
    ultimately have "consistent s2"
      using tl [unfolded tail_def s1r_def [symmetric]] by (rule rename_tail_keeps)
    with s' show ?thesis by simp
  qed
qed

lemma status_None:
  assumes "status x = (None, s')"
  obtains v where "x = (Inr v, s')"
  using assms by (cases x) (auto simp: status_def split: sum.splits)

lemmas consistency_defs = well_formed_def tags_match_disk_def tag_matches_def
  regular_or_absent_def tag_of_def plain_def status_def ends_with_def

section \<open>The claims\<close>

text \<open>
  C10. \<open>unlink(path)\<close> on a path for which neither the bare cache path nor the
  placeholder exists raises \<open>TypeError\<close> (from \<open>os.path.islink(None)\<close>), not the
  not-found error of the taxonomy. The world it leaves differs from the one it found only
  by three entries of the trace, the two existence tests and the symlink test: the inode
  registry and the state store are neither consulted nor modified, and no lock is taken.
\<close>

theorem unlink_of_missing_path_raises_TypeError:
  assumes "\<not> path_exists (disk s) (bare s path)"
    and "\<not> path_exists (disk s) (placeholder s path)"
  shows "unlink path s =
    (Inl TypeError,
     s\<lparr>trace := trace s @ [Os_path_exists (bare s path), Os_path_exists (placeholder s path),
                             Os_path_islink None]\<rparr>)"
  using assms
  by (simp add: unlink_def get_path_or_dummy_def monad_defs converter_defs os_defs bare_def
      placeholder_def)

theorem unlink_of_missing_path_witness:
  "\<not> path_exists (disk empty_world) (bare empty_world ''/a'') \<and>
   \<not> path_exists (disk empty_world) (placeholder empty_world ''/a'') \<and>
   unlink ''/a'' empty_world =
     (Inl TypeError,
      empty_world\<lparr>trace := [Os_path_exists ''/cache/a'', Os_path_exists ''/cache/a.dummy'',
                               Os_path_islink None]\<rparr>)"
  using unlink_of_missing_path_raises_TypeError [of empty_world "''/a''"]
  by (simp add: example_defs bare_def placeholder_def)

text \<open>
  C2. A file in remote state, whose placeholder holds the serialized dictionary
  \<open>{st_atime: 1000, st_mtime: 2000, st_size: 3}\<close> and whose download yields the bytes
  \<open>xyz\<close>, is opened read-only: the call returns a descriptor, and afterwards the bare
  cache path is a regular file with the contents \<open>xyz\<close> and mtime 2000, the placeholder
  is gone, and the state store holds clean-local for the inode.
\<close>

theorem open_hydrates_remote_file:
  assumes "inode_of (inode_store s) path = Some i"
    and "paths_of (inode_store s) (Some i) = path # rest"
    and "state_store s (Some i) = Some Remote"
    and "disk s (bare s path) = None"
    and "disk s (placeholder s path) = Some nd"
    and "kind nd = Regular"
    and "content nd = json_dumps scenario_stat"
    and "api s (Some i) = Some ''xyz''"
    and "dummy_ending (converter s) \<noteq> []"
  shows "case open_file path [O_RDONLY] s of
           (r, s') \<Rightarrow>
             r = Inr (next_fd s) \<and>
             (case disk s' (bare s path) of
                None \<Rightarrow> False
              | Some nd' \<Rightarrow> kind nd' = Regular \<and> content nd' = ''xyz'' \<and> st_mtime nd' = 2000) \<and>
             disk s' (placeholder s path) = None \<and>
             state_store s' (Some i) = Some CleanLocal"
proof -
  have "json_loads (content nd) = Some scenario_stat"
    unfolding assms(7) by (simp add: scenario_stat_def json_eval)
  with assms show ?thesis
    by (simp add: open_file_def get_path_def replace_dummy_inner_def monad_defs converter_defs
        registry_defs store_defs ranker_defs os_defs dict_get_def write_at_def wants_write_def
        bare_def placeholder_def scenario_stat_def)
qed

theorem open_hydrates_remote_file_witness:
  "case open_file ''/b'' [O_RDONLY] (remote_world (Some ''xyz'')) of
     (r, s') \<Rightarrow>
       r = Inr 3 \<and>
       (case disk s' ''/cache/b'' of
          None \<Rightarrow> False
        | Some nd' \<Rightarrow> kind nd' = Regular \<and> content nd' = ''xyz'' \<and> st_mtime nd' = 2000) \<and>
       disk s' ''/cache/b.dummy'' = None \<and>
       state_store s' (Some 1) = Some CleanLocal"
  using open_hydrates_remote_file [of "remote_world (Some ''xyz'')" "''/b''" 1 "[]"
      "stub (json_dumps scenario_stat)"]
  by (simp add: example_defs bare_def placeholder_def inode_of_def paths_of_def)

text \<open>
  C3, as amended. The download raises a connection error during hydration: \<open>open\<close>
  raises network-unreachable, the bare cache path is left on disk as an empty regular
  file, the placeholder is gone and the state store is as it was, the tag still remote.
  A subsequent \<open>open\<close> of the same path, with whatever flags, does not retry: it
  tests for the placeholder, finds none, and goes on to \<open>os.open\<close> of the bare cache
  path; it calls neither \<open>_replace_dummy\<close> nor the remote, and the tag stays remote.
\<close>

theorem failed_download_leaves_empty_file:
  assumes "inode_of (inode_store s) path = Some i"
    and "paths_of (inode_store s) (Some i) = path # rest"
    and "state_store s (Some i) = Some Remote"
    and "disk s (bare s path) = None"
    and "disk s (placeholder s path) = Some nd"
    and "kind nd = Regular"
    and "json_loads (content nd) = Some d"
    and "api s (Some i) = None"
  shows "case open_file path flags s of
           (r1, s1) \<Rightarrow>
             r1 = Inl (FuseOSError ENETUNREACH) \<and>
             (case disk s1 (bare s path) of
                None \<Rightarrow> False
              | Some nd' \<Rightarrow> kind nd' = Regular \<and> content nd' = []) \<and>
             disk s1 (placeholder s path) = None \<and>
             state_store s1 = state_store s \<and>
             (case open_file path flags' s1 of
                (r2, s2) \<Rightarrow>
                  new_events s1 s2 =
                    [Lock_acquire path None (Some True) (Some 100),
                     Os_path_exists (placeholder s path), Os_open (bare s path) flags',
                     Lock_release path] \<and>
                  state_store s2 = state_store s)"
proof -
  from assms(4,5) have "dummy_ending (converter s) \<noteq> []"
    by (auto simp: bare_def placeholder_def)
  with assms show ?thesis
    by (simp add: open_file_def get_path_def replace_dummy_inner_def monad_defs converter_defs
        registry_defs store_defs ranker_defs os_defs dict_get_def write_at_def wants_write_def
        bare_def placeholder_def new_events_def Let_def split: sum.splits prod.splits)
qed

theorem failed_download_leaves_empty_file_witness:
  "case open_file ''/b'' [O_RDONLY] (remote_world None) of
     (r1, s1) \<Rightarrow>
       r1 = Inl (FuseOSError ENETUNREACH) \<and>
       (case disk s1 ''/cache/b'' of
          None \<Rightarrow> False
        | Some nd' \<Rightarrow> kind nd' = Regular \<and> content nd' = []) \<and>
       disk s1 ''/cache/b.dummy'' = None \<and>
       state_store s1 = state_store (remote_world None) \<and>
       (case open_file ''/b'' [O_RDWR] s1 of
          (r2, s2) \<Rightarrow>
            new_events s1 s2 =
              [Lock_acquire ''/b'' None (Some True) (Some 100),
               Os_path_exists ''/cache/b.dummy'', Os_open ''/cache/b'' [O_RDWR],
               Lock_release ''/b''] \<and>
            state_store s2 = state_store (remote_world None))"
  using failed_download_leaves_empty_file [where s = "remote_world None"
      and path = "''/b''" and i = 1 and rest = "[]" and nd = "stub (json_dumps scenario_stat)"
      and d = scenario_stat and flags = "[O_RDONLY]" and flags' = "[O_RDWR]"]
  by (simp add: example_defs bare_def placeholder_def inode_of_def paths_of_def json_eval
      cong: prod.case_cong option.case_cong)

text \<open>
  C3 as stated fails in its last part. On \<open>remote_world None\<close> the first \<open>open\<close>
  fails as the claim says; the second completes with a descriptor on the empty file,
  and the calls it made hold no download.
\<close>

theorem failed_hydration_is_not_retried_counterexample:
  "case open_file ''/b'' [O_RDONLY] (remote_world None) of
     (r1, s1) \<Rightarrow>
       r1 = Inl (FuseOSError ENETUNREACH) \<and>
       map_option content (disk s1 ''/cache/b'') = Some [] \<and>
       disk s1 ''/cache/b.dummy'' = None \<and>
       state_store s1 (Some 1) = Some Remote \<and>
       (case open_file ''/b'' [O_RDONLY] s1 of
          (r2, s2) \<Rightarrow>
            r2 = Inr 3 \<and>
            new_events s1 s2 =
              [Lock_acquire ''/b'' None (Some True) (Some 100),
               Os_path_exists ''/cache/b.dummy'', Os_open ''/cache/b'' [O_RDONLY],
               Lock_release ''/b''] \<and>
            map_option content (disk s2 ''/cache/b'') = Some [] \<and>
            state_store s2 (Some 1) = Some Remote)"
  by (simp add: open_file_def get_path_def replace_dummy_inner_def monad_defs converter_defs
        registry_defs store_defs ranker_defs os_defs dict_get_def write_at_def wants_write_def
        example_defs json_eval inode_of_def paths_of_def new_events_def)

text \<open>
  C4, as amended. Each of \<open>read\<close>, \<open>write\<close>, \<open>truncate\<close>, \<open>create\<close> and
  \<open>_delete_file\<close> that completes has notified the ranker exactly once. In \<open>create\<close>
  and \<open>_delete_file\<close> the notification comes after the call's effect on the disk; in
  \<open>read\<close>, \<open>write\<close> and \<open>truncate\<close> it comes before the read, the write and the
  truncation. \<open>open\<close> never notifies the ranker, hydration or not. (\<open>observable\<close>
  keeps the ranker's events and the disk's, in their order.)
\<close>

theorem ranker_notified_once:
  "(\<forall>r s'. read p sz pos fh s = (Inr r, s') \<longrightarrow>
      observable (new_events s s') =
        [Ranker_access (inode_of (inode_store s) p), Os_read fh sz]) \<and>
   (\<forall>n s'. write_data p bytes pos fh s = (Inr n, s') \<longrightarrow>
      observable (new_events s s') =
        [Ranker_access (inode_of (inode_store s) p), Os_write fh bytes]) \<and>
   (\<forall>n s'. truncate p len s = (Inr n, s') \<longrightarrow>
      filter is_ranker (new_events s s') = [Ranker_access (inode_of (inode_store s) p)] \<and>
      dropWhile (\<lambda>e. \<not> is_ranker e) (observable (new_events s s')) =
        [Ranker_access (inode_of (inode_store s) p), File_truncate (bare s p) len]) \<and>
   (\<forall>fd s'. create p mode s = (Inr fd, s') \<longrightarrow>
      observable (new_events s s') =
        [Os_open (bare s p) [O_WRONLY, O_CREAT, O_TRUNC],
         Ranker_access (inode_of (inode_store s') p)] \<and>
      notified_once_after (new_events s s')) \<and>
   (\<forall>u s'. delete_file p s = (Inr u, s') \<longrightarrow>
      observable (new_events s s') =
        [Os_unlink (form_of s p), Ranker_delete (inode_of (inode_store s) p)] \<and>
      notified_once_after (new_events s s')) \<and>
   filter is_ranker (new_events s (snd (open_file p flags s))) = []"
  using read_events [of p sz pos fh s] write_events [of p bytes pos fh s]
    truncate_events [of p len s] create_events [of p mode s] delete_file_events [of p s]
    emits_new_events [OF open_file_quiet, of s p flags]
  by (simp add: filter_False)

theorem ranker_notified_once_witness:
  "write_data ''/a'' ''hi'' 0 3 (open_handle_world Dirty) =
     (Inr 2, snd (write_data ''/a'' ''hi'' 0 3 (open_handle_world Dirty))) \<and>
   observable (new_events (open_handle_world Dirty) (snd (write_data ''/a'' ''hi'' 0 3 (open_handle_world Dirty))))
     = [Ranker_access (Some 1), Os_write 3 ''hi'']"
proof -
  have w: "write_data ''/a'' ''hi'' 0 3 (open_handle_world Dirty) =
     (Inr 2, snd (write_data ''/a'' ''hi'' 0 3 (open_handle_world Dirty)))"
    by (simp add: write_data_def monad_defs registry_defs store_defs ranker_defs os_defs
        example_defs resident_world_def open_handle_world_def wants_write_def inode_of_def
        put_handle_node_def handle_node_def)
  moreover have "inode_of (inode_store (open_handle_world Dirty)) ''/a'' = Some 1"
    by (simp add: open_handle_world_def resident_world_def example_defs inode_of_def)
  ultimately show ?thesis
    using ranker_notified_once [of "''/a''" _ 0 3 "open_handle_world Dirty" "''hi''"] by simp
qed

text \<open>
  C4 as stated fails: a completed \<open>write\<close> notifies the ranker before \<open>os.write\<close>,
  and a completed \<open>open\<close> that hydrates notifies nobody.
\<close>

theorem ranker_notified_after_counterexample:
  "fst (write_data ''/a'' ''hi'' 0 3 (open_handle_world Dirty)) = Inr 2 \<and>
   \<not> notified_once_after
       (new_events (open_handle_world Dirty) (snd (write_data ''/a'' ''hi'' 0 3 (open_handle_world Dirty)))) \<and>
   fst (open_file ''/b'' [O_RDONLY] (remote_world (Some ''xyz''))) = Inr 3 \<and>
   \<not> notified_once_after
       (new_events (remote_world (Some ''xyz''))
          (snd (open_file ''/b'' [O_RDONLY] (remote_world (Some ''xyz'')))))"
  by (simp add: write_data_def open_file_def get_path_def replace_dummy_inner_def monad_defs
      converter_defs registry_defs store_defs ranker_defs os_defs example_defs
      resident_world_def open_handle_world_def json_eval dict_get_def
      wants_write_def new_events_def notified_once_after_def inode_of_def paths_of_def
      put_handle_node_def handle_node_def event_defs write_at_def)

text \<open>
  C5, as amended. \<open>open\<close>, \<open>write\<close>, \<open>truncate\<close>, \<open>rename\<close> (on the old path) and
  \<open>rmdir\<close> run under the path lock of their path, taken with \<open>high_priority=True\<close>
  and the retry bound 100 and no \<open>exclusive_lock_on_leaf\<close> argument; \<open>read\<close> the
  same with \<open>exclusive_lock_on_leaf=False\<close>. \<open>unlink\<close> first resolves the path and
  tests for a symbolic link, outside any lock. Then, on a path with no on-disk form it
  raises \<open>TypeError\<close>, and on a symbolic link it calls \<open>os.unlink\<close>, in both cases
  without any lock; on anything else it is \<open>_delete_file\<close> run under the lock of the
  path, taken with \<open>high_priority=True\<close> and the retry bound 10. \<open>create\<close>,
  \<open>mkdir\<close> and \<open>getattributes\<close> take no lock.
\<close>

theorem path_locks_taken:
  "under_lock p None 100 (new_events s (snd (open_file p flags s))) \<and>
   under_lock p (Some False) 100 (new_events s (snd (read p sz pos fh s))) \<and>
   under_lock p None 100 (new_events s (snd (write_data p bytes pos fh s))) \<and>
   under_lock p None 100 (new_events s (snd (truncate p len s))) \<and>
   under_lock p None 100 (new_events s (snd (rename p p' s))) \<and>
   under_lock p None 100 (new_events s (snd (rmdir p s))) \<and>
   (form_of s p = None \<longrightarrow>
      fst (unlink p s) = Inl TypeError \<and>
      new_events s (snd (unlink p s)) = probes s p @ [Os_path_islink None]) \<and>
   (\<forall>q. form_of s p = Some q \<and> map_option kind (disk s q) = Some Symlink \<longrightarrow>
      new_events s (snd (unlink p s)) =
        probes s p @ [Os_path_islink (Some q), Os_unlink (Some q)]) \<and>
   (\<forall>q. form_of s p = Some q \<and> map_option kind (disk s q) \<noteq> Some Symlink \<longrightarrow>
      unlink p s =
        PathLock p None (Some True) (Some 10) (delete_file p)
          (s\<lparr>trace := trace s @ probes s p @ [Os_path_islink (Some q)]\<rparr>) \<and>
      under_lock p None 10
        (drop (length (probes s p) + 1) (new_events s (snd (unlink p s))))) \<and>
   list_all (\<lambda>e. \<not> is_lock e) (new_events s (snd (create p mode s))) \<and>
   list_all (\<lambda>e. \<not> is_lock e) (new_events s (snd (mkdir p mode s))) \<and>
   list_all (\<lambda>e. \<not> is_lock e) (new_events s (snd (getattributes p s)))"
proof (intro conjI allI impI)
  show "under_lock p None 100 (new_events s (snd (open_file p flags s)))"
    unfolding open_file_def by (rule PathLock_under_lock) (auto intro: grows_get_path)
  show "under_lock p (Some False) 100 (new_events s (snd (read p sz pos fh s)))"
    unfolding read_def by (rule PathLock_under_lock) auto
  show "under_lock p None 100 (new_events s (snd (write_data p bytes pos fh s)))"
    unfolding write_data_def by (rule PathLock_under_lock) auto
  show "under_lock p None 100 (new_events s (snd (truncate p len s)))"
    unfolding truncate_def by (rule PathLock_under_lock) (auto intro: grows_get_path)
  show "under_lock p None 100 (new_events s (snd (rename p p' s)))"
    unfolding rename_def
    by (rule PathLock_under_lock) (auto intro: grows_delete_file grows_rmdir)
  show "under_lock p None 100 (new_events s (snd (rmdir p s)))"
    unfolding rmdir_def
    by (simp add: andthen_def to_cache_path_def) (rule PathLock_under_lock, auto)
  show "list_all (\<lambda>e. \<not> is_lock e) (new_events s (snd (create p mode s)))"
    by (rule emits_new_events) (rule create_no_lock)
  show "list_all (\<lambda>e. \<not> is_lock e) (new_events s (snd (mkdir p mode s)))"
    by (rule emits_new_events) (rule mkdir_no_lock)
  show "list_all (\<lambda>e. \<not> is_lock e) (new_events s (snd (getattributes p s)))"
    by (rule emits_new_events) (rule getattributes_no_lock)
next
  assume "form_of s p = None"
  then show "fst (unlink p s) = Inl TypeError"
    and "new_events s (snd (unlink p s)) = probes s p @ [Os_path_islink None]"
    using unlink_missing by blast+
next
  fix q assume "form_of s p = Some q \<and> map_option kind (disk s q) = Some Symlink"
  then show "new_events s (snd (unlink p s)) =
      probes s p @ [Os_path_islink (Some q), Os_unlink (Some q)]"
    using unlink_symlink by blast
next
  fix q assume "form_of s p = Some q \<and> map_option kind (disk s q) \<noteq> Some Symlink"
  then show "unlink p s =
      PathLock p None (Some True) (Some 10) (delete_file p)
        (s\<lparr>trace := trace s @ probes s p @ [Os_path_islink (Some q)]\<rparr>)"
    and "under_lock p None 10
      (drop (length (probes s p) + 1) (new_events s (snd (unlink p s))))"
    using unlink_locked by blast+
qed

theorem path_locks_taken_witness:
  "form_of (resident_world Dirty) ''/a'' = Some ''/cache/a'' \<and>
   map_option kind (disk (resident_world Dirty) ''/cache/a'') \<noteq> Some Symlink \<and>
   probes (resident_world Dirty) ''/a'' = [Os_path_exists ''/cache/a''] \<and>
   unlink ''/a'' (resident_world Dirty) =
     PathLock ''/a'' None (Some True) (Some 10) (delete_file ''/a'')
       ((resident_world Dirty)
          \<lparr>trace := [Os_path_exists ''/cache/a'', Os_path_islink (Some ''/cache/a'')]\<rparr>) \<and>
   under_lock ''/a'' None 10
     (drop 2 (new_events (resident_world Dirty) (snd (unlink ''/a'' (resident_world Dirty)))))"
proof -
  have f: "form_of (resident_world Dirty) ''/a'' = Some ''/cache/a''"
    "map_option kind (disk (resident_world Dirty) ''/cache/a'') \<noteq> Some Symlink"
    "probes (resident_world Dirty) ''/a'' = [Os_path_exists ''/cache/a'']"
    "trace (resident_world Dirty) = []"
    by (simp_all add: form_of_def probes_def example_defs bare_def placeholder_def)
  from path_locks_taken [where s = "resident_world Dirty" and p = "''/a''"] f(1,2)
  have "unlink ''/a'' (resident_world Dirty) =
      PathLock ''/a'' None (Some True) (Some 10) (delete_file ''/a'')
        ((resident_world Dirty)
           \<lparr>trace := trace (resident_world Dirty) @ probes (resident_world Dirty) ''/a'' @
                      [Os_path_islink (Some ''/cache/a'')]\<rparr>)"
    and "under_lock ''/a'' None 10
      (drop (length (probes (resident_world Dirty) ''/a'') + 1)
         (new_events (resident_world Dirty) (snd (unlink ''/a'' (resident_world Dirty)))))"
    by blast+
  with f show ?thesis by (simp add: numeral_2_eq_2)
qed

text \<open>C5 as stated fails: a \<open>create\<close> that completes has not run under a lock.\<close>

theorem create_takes_no_lock_counterexample:
  "\<not> under_lock ''/a'' None 100 (new_events empty_world (snd (create ''/a'' 420 empty_world))) \<and>
   fst (create ''/a'' 420 empty_world) = Inr 3"
  by (simp add: create_def monad_defs converter_defs registry_defs store_defs ranker_defs
      os_defs example_defs wants_write_def new_events_def under_lock_def inode_of_def)

text \<open>
  C6. A clean-local file is dehydrated by \<open>create_dummy\<close> and, at any later time
  \<open>t\<close>, hydrated by \<open>replace_dummy\<close> (the download succeeding): both calls complete,
  and the file is back at the bare cache path with the mtime, atime, mode, uid and gid it
  had. Time stamps are whole numbers here, so they are restored exactly, which is within
  one second.
\<close>

theorem dehydrate_then_hydrate_restores_stat:
  assumes "paths_of (inode_store s) (Some i) = path # rest"
    and "state_store s (Some i) = Some CleanLocal"
    and "disk s (bare s path) = Some nd"
    and "kind nd = Regular"
    and "disk s (placeholder s path) = None"
    and "dummy_ending (converter s) \<noteq> []"
    and "api s (Some i) = Some bytes"
  shows "case create_dummy (Some i) s of
           (r1, s1) \<Rightarrow>
             r1 = Inr () \<and> state_store s1 (Some i) = Some Remote \<and>
             disk s1 (bare s path) = None \<and>
             (case replace_dummy (Some i) (s1\<lparr>clock := t\<rparr>) of
                (r2, s2) \<Rightarrow>
                  r2 = Inr () \<and> state_store s2 (Some i) = Some CleanLocal \<and>
                  disk s2 (placeholder s path) = None \<and>
                  (case disk s2 (bare s path) of
                     None \<Rightarrow> False
                   | Some nd' \<Rightarrow>
                       st_mtime nd' = st_mtime nd \<and> st_atime nd' = st_atime nd \<and>
                       st_mode nd' = st_mode nd \<and> st_uid nd' = st_uid nd \<and>
                       st_gid nd' = st_gid nd \<and> content nd' = bytes))"
  using assms
  by (simp add: create_dummy_def replace_dummy_def replace_dummy_inner_def monad_defs
      converter_defs registry_defs store_defs ranker_defs os_defs bare_def placeholder_def
      stat_dictionary_roundtrip stat_dictionary_times write_at_def)

theorem dehydrate_then_hydrate_restores_stat_witness:
  "case create_dummy (Some 1) (resident_world CleanLocal) of
     (r1, s1) \<Rightarrow>
       r1 = Inr () \<and> state_store s1 (Some 1) = Some Remote \<and> disk s1 ''/cache/a'' = None \<and>
       (case replace_dummy (Some 1) (s1\<lparr>clock := 9000\<rparr>) of
          (r2, s2) \<Rightarrow>
            r2 = Inr () \<and> state_store s2 (Some 1) = Some CleanLocal \<and>
            disk s2 ''/cache/a.dummy'' = None \<and>
            (case disk s2 ''/cache/a'' of
               None \<Rightarrow> False
             | Some nd' \<Rightarrow>
                 st_mtime nd' = 3000 \<and> st_atime nd' = 4000 \<and> st_mode nd' = 420 \<and>
                 st_uid nd' = 1000 \<and> st_gid nd' = 1000 \<and> content nd' = ''hello''))"
  using dehydrate_then_hydrate_restores_stat [of "resident_world CleanLocal" 1 "''/a''" "[]"
      "stub ''hello''" "''hello''" 9000]
  by (simp add: example_defs bare_def placeholder_def paths_of_def
      cong: prod.case_cong option.case_cong)

text \<open>
  C7, as amended. \<open>getattributes\<close> raises the not-found error exactly when neither the
  bare cache path nor the placeholder exists. When the bare cache path exists (and its
  own name does not end in the dummy ending) the result is the on-disk stat of the bare
  cache path, also when a placeholder exists beside it. When only the placeholder exists,
  a regular file, the result is the dictionary deserialized from its contents, or the
  decoder's error when the contents are no serialized dictionary.
\<close>

theorem getattributes_by_form:
  "(fst (getattributes path s) = Inl (FuseOSError ENOENT) \<longleftrightarrow>
      \<not> path_exists (disk s) (bare s path) \<and> \<not> path_exists (disk s) (placeholder s path)) \<and>
   (path_exists (disk s) (bare s path) \<and> \<not> ends_with (dummy_ending (converter s)) (bare s path) \<longrightarrow>
      (\<exists>nd. disk s (bare s path) = Some nd \<and>
            fst (getattributes path s) = Inr (stat_dictionary nd))) \<and>
   (\<not> path_exists (disk s) (bare s path) \<and> disk s (placeholder s path) = Some nd \<and>
    kind nd = Regular \<longrightarrow>
      fst (getattributes path s) =
        (case json_loads (content nd) of None \<Rightarrow> Inl JSONDecodeError | Some d \<Rightarrow> Inr d))"
proof (intro conjI impI)
  show "fst (getattributes path s) = Inl (FuseOSError ENOENT) \<longleftrightarrow>
      \<not> path_exists (disk s) (bare s path) \<and> \<not> path_exists (disk s) (placeholder s path)"
    using path_exists_present [of "disk s" "bare s path"]
    by (auto simp: getattributes_result read_json_not_fuse_error split: option.splits)
next
  assume "path_exists (disk s) (bare s path) \<and>
      \<not> ends_with (dummy_ending (converter s)) (bare s path)"
  then show "\<exists>nd. disk s (bare s path) = Some nd \<and>
      fst (getattributes path s) = Inr (stat_dictionary nd)"
    using path_exists_present [of "disk s" "bare s path"]
    by (auto simp: getattributes_result)
next
  assume "\<not> path_exists (disk s) (bare s path) \<and> disk s (placeholder s path) = Some nd \<and>
    kind nd = Regular"
  then show "fst (getattributes path s) =
        (case json_loads (content nd) of None \<Rightarrow> Inl JSONDecodeError | Some d \<Rightarrow> Inr d)"
    by (simp add: getattributes_result read_json_regular log_def)
qed

theorem getattributes_by_form_witness:
  "\<not> path_exists (disk (remote_world None)) (bare (remote_world None) ''/b'') \<and>
   disk (remote_world None) (placeholder (remote_world None) ''/b'') =
     Some (stub (json_dumps scenario_stat)) \<and>
   kind (stub (json_dumps scenario_stat)) = Regular \<and>
   fst (getattributes ''/b'' (remote_world None)) = Inr scenario_stat"
  using getattributes_by_form [of "''/b''" "remote_world None" "stub (json_dumps scenario_stat)"]
  by (simp add: example_defs bare_def placeholder_def json_eval)

text \<open>
  C7 as stated fails where both forms exist, as they do after \<open>create\<close> on a remote
  file: the placeholder exists and holds the serialized dictionary, and
  \<open>getattributes\<close> returns the stat of the bare file instead.
\<close>

theorem getattributes_prefers_bare_counterexample:
  "path_exists (disk both_forms_world) (placeholder both_forms_world ''/b'') \<and>
   map_option (json_loads \<circ> content) (disk both_forms_world (placeholder both_forms_world ''/b''))
     = Some (Some scenario_stat) \<and>
   fst (getattributes ''/b'' both_forms_world) \<noteq> Inr scenario_stat"
  by (simp add: both_forms_world_eval placeholder_def getattributes_def get_path_or_dummy_def
       monad_defs converter_defs os_defs example_defs json_eval ends_with_def stat_dictionary_def)

text \<open>
  C8, as amended. \<open>create_dummy\<close> on an inode that has a registered path and whose
  state is not clean-local returns without raising; it takes and releases the path lock
  and asks the state store, and changes nothing else: disk, state store and registry are
  as before.
\<close>

theorem create_dummy_refuses_unclean:
  assumes "paths_of (inode_store s) inode = path # rest"
    and "state_store s inode \<noteq> Some CleanLocal"
  shows "create_dummy inode s =
    (Inr (),
     s\<lparr>trace := trace s @ [Registry_get_paths inode, Lock_acquire path None None None,
                             Store_is_clean inode, Lock_release path]\<rparr>)"
  using assms
  by (simp add: create_dummy_def monad_defs registry_defs store_defs first_item_def)

theorem create_dummy_refuses_unclean_witness:
  "paths_of (inode_store (resident_world Dirty)) (Some 1) = [''/a''] \<and>
   state_store (resident_world Dirty) (Some 1) \<noteq> Some CleanLocal \<and>
   create_dummy (Some 1) (resident_world Dirty) =
    (Inr (),
     (resident_world Dirty)
       \<lparr>trace := [Registry_get_paths (Some 1), Lock_acquire ''/a'' None None None,
                   Store_is_clean (Some 1), Lock_release ''/a'']\<rparr>)"
  using create_dummy_refuses_unclean [of "resident_world Dirty" "Some 1" "''/a''" "[]"]
  by (simp add: example_defs paths_of_def)

text \<open>
  C8 as stated fails for an inode without a registered path, which is every inode that
  \<open>_delete_file\<close> has marked to-delete: \<open>get_paths(inode)[0]\<close> raises
  \<open>IndexError\<close> before the state is looked at.
\<close>

theorem create_dummy_raises_counterexample:
  "case unlink ''/a'' (resident_world Dirty) of
     (r, s) \<Rightarrow>
       r = Inr () \<and> state_store s (Some 1) = Some ToDelete \<and>
       fst (create_dummy (Some 1) s) = Inl IndexError"
  by (simp add: unlink_def delete_file_def get_path_or_dummy_def create_dummy_def monad_defs
      converter_defs registry_defs store_defs ranker_defs os_defs example_defs paths_of_def
      inode_of_def)

text \<open>
  C9, as amended. \<open>rename(old, new)\<close> of a file of which only the placeholder is on
  disk, whatever the destination: every \<open>os.rename\<close> it calls is on the two bare
  cache paths; it never completes, and no entry of the disk is created or changed
  (entries of the destination may be removed), so the placeholder is not moved to the
  new path. The error is the not-found \<open>OSError\<close> of \<open>os.rename\<close>, unless the
  clean-up of a registered destination raises first and \<open>os.rename\<close> is never called:
  \<open>TypeError\<close> from \<open>os.unlink(None)\<close> when the destination has a tag and neither
  form on disk, the is-a-directory error of \<open>os.unlink\<close> when it has a tag and its
  form is a directory, and the error of \<open>os.rmdir\<close> when it has no tag and its bare
  cache path is missing (not-found) or no directory (not-a-directory).
\<close>

theorem rename_of_remote_file_never_moves_placeholder:
  assumes "disk s (bare s old_path) = None"
    and "disk s (placeholder s old_path) = Some nd"
  shows "case rename old_path new_path s of
     (r, s') \<Rightarrow>
       (\<forall>q. disk s' q = disk s q \<or> disk s' q = None) \<and>
       list_all (\<lambda>e. e = Os_rename (bare s old_path) (bare s new_path))
         (filter is_os_rename (new_events s s')) \<and>
       (\<not> truthy (inode_of (inode_store s) new_path) \<longrightarrow>
          r = Inl (OSError ENOENT) \<and> length (filter is_os_rename (new_events s s')) = 1) \<and>
       (truthy (inode_of (inode_store s) new_path) \<and>
        state_store s (inode_of (inode_store s) new_path) \<noteq> None \<longrightarrow>
          (case form_of s new_path of
             None \<Rightarrow> r = Inl TypeError \<and> filter is_os_rename (new_events s s') = []
           | Some q \<Rightarrow>
               if map_option kind (disk s q) = Some Directory
               then r = Inl (OSError EISDIR) \<and> filter is_os_rename (new_events s s') = []
               else r = Inl (OSError ENOENT) \<and>
                    length (filter is_os_rename (new_events s s')) = 1)) \<and>
       (truthy (inode_of (inode_store s) new_path) \<and>
        state_store s (inode_of (inode_store s) new_path) = None \<longrightarrow>
          (case disk s (bare s new_path) of
             None \<Rightarrow> r = Inl (OSError ENOENT) \<and> filter is_os_rename (new_events s s') = []
           | Some n \<Rightarrow>
               if kind n = Directory
               then r = Inl (OSError ENOENT) \<and>
                    length (filter is_os_rename (new_events s s')) = 1
               else r = Inl (OSError ENOTDIR) \<and>
                    filter is_os_rename (new_events s s') = []))"
proof (cases "truthy (inode_of (inode_store s) new_path)")
  case False
  with assms(1) show ?thesis
    by (simp add: rename_def monad_defs converter_defs registry_defs os_defs bare_def
        new_events_def is_os_rename_def)
next
  case True
  then obtain j where j: "inode_of (inode_store s) new_path = Some j"
    by (auto simp: truthy_def split: option.splits)
  show ?thesis
  proof (cases "state_store s (Some j)")
    case None
    with True j assms(1) show ?thesis
      by (simp add: rename_def rmdir_def monad_defs converter_defs registry_defs store_defs
          os_defs bare_def new_events_def is_os_rename_def Let_def split: option.splits)
  next
    case (Some t)
    have pe: "path_exists (disk s) q \<Longrightarrow> disk s q \<noteq> None" for q
      using path_exists_present [of "disk s" q] by auto
    from Some True j assms(1) pe [of "bare s new_path"] pe [of "placeholder s new_path"]
    show ?thesis
      by (auto simp: rename_def delete_file_def get_path_or_dummy_def monad_defs converter_defs
          registry_defs store_defs ranker_defs os_defs bare_def placeholder_def new_events_def
          is_os_rename_def Let_def form_of_def split: option.splits)
  qed
qed

theorem rename_of_remote_file_never_moves_placeholder_witness:
  "disk two_files_world (bare two_files_world ''/b'') = None \<and>
   disk two_files_world (placeholder two_files_world ''/b'') =
     Some (stub (json_dumps scenario_stat)) \<and>
   truthy (inode_of (inode_store two_files_world) ''/c'') \<and>
   state_store two_files_world (inode_of (inode_store two_files_world) ''/c'') \<noteq> None \<and>
   form_of two_files_world ''/c'' = Some ''/cache/c'' \<and>
   map_option kind (disk two_files_world ''/cache/c'') \<noteq> Some Directory \<and>
   (case rename ''/b'' ''/c'' two_files_world of
      (r, s') \<Rightarrow>
        r = Inl (OSError ENOENT) \<and>
        filter is_os_rename (new_events two_files_world s') =
          [Os_rename ''/cache/b'' ''/cache/c''] \<and>
        disk s' ''/cache/b.dummy'' = Some (stub (json_dumps scenario_stat)) \<and>
        disk s' ''/cache/c'' = None \<and> disk s' ''/cache/c.dummy'' = None)"
  using rename_of_remote_file_never_moves_placeholder
    [of two_files_world "''/b''" "stub (json_dumps scenario_stat)" "''/c''"]
  by (simp add: example_defs bare_def placeholder_def inode_of_def form_of_def truthy_def)
     (simp add: rename_def delete_file_def get_path_or_dummy_def monad_defs converter_defs
        registry_defs store_defs ranker_defs os_defs truthy_def inode_of_def new_events_def
        is_os_rename_def)

text \<open>
  C9 as stated fails where the destination is a registered file that has a tag and no
  form on disk, here \<open>/c\<close> after its bare file was removed: \<open>_delete_file\<close> passes
  \<open>None\<close> to \<open>os.unlink\<close>, and \<open>rename\<close> of the remote file \<open>/b\<close> raises
  \<open>TypeError\<close>, not the not-found error, without calling \<open>os.rename\<close>.
\<close>

theorem rename_onto_lost_file_counterexample:
  "disk (two_files_world\<lparr>disk := (disk two_files_world)(''/cache/c'' := None)\<rparr>) ''/cache/b''
     = None \<and>
   disk (two_files_world\<lparr>disk := (disk two_files_world)(''/cache/c'' := None)\<rparr>)
     ''/cache/b.dummy'' \<noteq> None \<and>
   state_store (two_files_world\<lparr>disk := (disk two_files_world)(''/cache/c'' := None)\<rparr>)
     (Some 1) = Some Remote \<and>
   (case rename ''/b'' ''/c''
           (two_files_world\<lparr>disk := (disk two_files_world)(''/cache/c'' := None)\<rparr>) of
      (r, s') \<Rightarrow>
        r = Inl TypeError \<and>
        filter is_os_rename
          (new_events (two_files_world\<lparr>disk := (disk two_files_world)(''/cache/c'' := None)\<rparr>)
             s') = [])"
  by (simp add: rename_def delete_file_def get_path_or_dummy_def monad_defs converter_defs
      registry_defs store_defs ranker_defs os_defs example_defs truthy_def inode_of_def
      new_events_def is_os_rename_def)

text \<open>
  C1, as amended. Let the registry and the disk be well formed and let the tag of every
  logical file known to the inode registry match its on-disk form: remote exactly when
  the placeholder exists and the bare cache path does not, dirty or clean-local exactly
  when the bare cache path exists and the placeholder does not, to-delete exactly when
  neither exists. Then the same holds after every Cache operation that completes,
  provided the operation is one of the expected uses (\<open>expected\<close>).
\<close>

theorem completed_operation_keeps_tags_matching:
  assumes "well_formed s" and "tags_match_disk s" and "expected s c"
    and "perform c s = (None, s')"
  shows "well_formed s' \<and> tags_match_disk s'"
proof -
  from assms(1,2) have i: "consistent s" by (simp add: consistent_iff)
  have "consistent s'"
  proof (cases c)
    case (Open p flags)
    with assms(3,4) i show ?thesis by (auto elim!: status_None intro: open_keeps)
  next
    case (Read p sz pos fh)
    with assms(4) i show ?thesis by (auto elim!: status_None intro: read_keeps)
  next
    case (Write p bytes pos fh)
    with assms(3,4) i show ?thesis
      by (auto elim!: status_None intro: write_keeps simp del: expected.simps)
  next
    case (Truncate p len)
    with assms(3,4) i show ?thesis by (auto elim!: status_None intro: truncate_keeps)
  next
    case (Create p mode)
    with assms(3,4) i show ?thesis
      by (auto elim!: status_None intro: create_keeps simp del: expected.simps)
  next
    case (Rename old new)
    with assms(3,4) i show ?thesis
      by (auto elim!: status_None intro: rename_keeps simp del: expected.simps)
  next
    case (Mkdir p mode)
    with assms(3,4) i show ?thesis
      by (auto elim!: status_None intro: mkdir_keeps simp del: expected.simps)
  next
    case (Rmdir p)
    with assms(4) i show ?thesis by (auto elim!: status_None intro: rmdir_keeps)
  next
    case (Unlink p)
    with assms(3,4) i show ?thesis
      by (auto elim!: status_None intro: unlink_keeps simp del: expected.simps)
  next
    case (Getattributes p)
    with assms(4) i show ?thesis by (auto elim!: status_None intro: getattributes_keeps)
  next
    case (Replace_dummy inode)
    with assms(3,4) i show ?thesis
      by (auto elim!: status_None intro: replace_dummy_keeps simp del: expected.simps)
  next
    case (Create_dummy inode)
    with assms(4) i show ?thesis by (auto elim!: status_None intro: create_dummy_keeps)
  qed
  then show ?thesis by (simp add: consistent_iff)
qed

theorem completed_operation_keeps_tags_matching_witness:
  "well_formed (remote_world (Some ''xyz'')) \<and> tags_match_disk (remote_world (Some ''xyz'')) \<and>
   expected (remote_world (Some ''xyz'')) (Open ''/b'' [O_RDONLY]) \<and>
   fst (perform (Open ''/b'' [O_RDONLY]) (remote_world (Some ''xyz''))) = None \<and>
   well_formed (snd (perform (Open ''/b'' [O_RDONLY]) (remote_world (Some ''xyz'')))) \<and>
   tags_match_disk (snd (perform (Open ''/b'' [O_RDONLY]) (remote_world (Some ''xyz''))))"
proof -
  let ?w = "remote_world (Some ''xyz'')"
  have a: "well_formed ?w" "tags_match_disk ?w" "expected ?w (Open ''/b'' [O_RDONLY])"
    by (simp_all add: consistency_defs example_defs bare_def placeholder_def inode_of_def)
  have f: "fst (perform (Open ''/b'' [O_RDONLY]) ?w) = None"
    by (simp add: status_def open_file_def get_path_def replace_dummy_inner_def monad_defs
        converter_defs registry_defs store_defs ranker_defs os_defs dict_get_def write_at_def
        wants_write_def example_defs json_eval inode_of_def paths_of_def)
  then have p: "perform (Open ''/b'' [O_RDONLY]) ?w =
      (None, snd (perform (Open ''/b'' [O_RDONLY]) ?w))"
    by (simp add: prod_eq_iff)
  from completed_operation_keeps_tags_matching [OF a p] a f show ?thesis by blast
qed

text \<open>
  C1 as stated fails. The file \<open>/a\<close> is clean-local and descriptor 3 is open on it.
  \<open>create_dummy\<close> completes and leaves tag and disk in step (remote, placeholder
  only); the descriptor follows the renamed file. Then \<open>write\<close> through the
  descriptor completes: it does not hydrate, writes into the placeholder and marks the
  inode dirty. The tag is dirty and only the placeholder is on disk.
\<close>

theorem write_after_dehydration_counterexample:
  "well_formed (open_handle_world CleanLocal) \<and>
   tags_match_disk (open_handle_world CleanLocal) \<and>
   (case perform (Create_dummy (Some 1)) (open_handle_world CleanLocal) of
      (r1, s1) \<Rightarrow>
        r1 = None \<and> tags_match_disk s1 \<and>
        (case perform (Write ''/a'' ''hi'' 0 3) s1 of
           (r2, s2) \<Rightarrow>
             r2 = None \<and> state_store s2 (Some 1) = Some Dirty \<and>
             disk s2 ''/cache/a'' = None \<and> disk s2 ''/cache/a.dummy'' \<noteq> None \<and>
             \<not> tags_match_disk s2))"
  by (simp add: consistency_defs example_defs open_handle_world_def bare_def placeholder_def
      inode_of_def paths_of_def create_dummy_def write_data_def monad_defs converter_defs
      registry_defs store_defs ranker_defs os_defs retarget_def put_handle_node_def
      handle_node_def wants_write_def)

end
